theory Spec2Isabelle
  imports Complex_Main "HOL-Library.Char_ord" "HOL-Library.List_Lexorder" "HOL-Library.AList"
begin

section \<open>Data model\<close>

text \<open>
  A snapshot (\<open>sync_worker.py\<close>) is a Python dict from relative paths to
  \<open>{"mtime": ..., "size": ...}\<close>. A dict is modelled as an association list in
  insertion order whose keys are distinct; \<open>d.get(k)\<close> is \<open>map_of d k\<close>,
  \<open>d[k] = v\<close> is \<open>AList.update k v d\<close> and \<open>d.pop(k, None)\<close> is
  \<open>AList.delete k d\<close>. Modification times are Python floats (integers on the remote
  side); they are modelled as exact real numbers, so rounding of the float subtraction
  is not part of the model. Paths are strings compared character by character, as
  Python compares \<open>str\<close> values.
\<close>

record file_meta =
  mtime :: real
  size_b :: int

type_synonym snapshot = "(string \<times> file_meta) list"

text \<open>The entry that \<open>_build_snapshot\<close> builds for one path.\<close>

record sync_entry =
  local_exists :: bool
  local_mtime :: "real option"
  remote_exists :: bool
  remote_mtime :: "real option"

text \<open>The entry that \<open>load_sync_state\<close> returns for one path: the same four
  fields and the \<open>hash\<close> column.\<close>

record state_entry = sync_entry +
  hash :: "string option"

text \<open>The two policy flags of a connection record that the planner reads.\<close>

record connection =
  conn_id :: int
  allow_delete :: bool
  local_priority :: bool

type_synonym action = "string \<times> string"

section \<open>The action planner (\<open>sync_worker.py\<close>)\<close>

definition files_differ :: "file_meta \<Rightarrow> file_meta \<Rightarrow> bool" where
  "files_differ local_meta remote_meta =
     (let size_diff = \<bar>size_b local_meta - size_b remote_meta\<bar>;
          time_diff = \<bar>mtime local_meta - mtime remote_meta\<bar>
      in size_diff > 0 \<or> time_diff > 1)"

text \<open>\<open>prev and prev.get("local_exists") and prev.get("remote_exists")\<close>: a loaded
  entry is a dict of five keys, hence truthy whenever it is present.\<close>

definition prev_both :: "state_entry option \<Rightarrow> bool" where
  "prev_both prev =
     (case prev of None \<Rightarrow> False | Some e \<Rightarrow> local_exists e \<and> remote_exists e)"

text \<open>The body of the loop of \<open>_plan_actions\<close> for one path: the actions it appends.
  A metadata dict always holds its two keys, so it is truthy exactly when the path is
  in the snapshot.\<close>

definition plan_path ::
  "connection \<Rightarrow> snapshot \<Rightarrow> snapshot \<Rightarrow> (string \<times> state_entry) list \<Rightarrow> string \<Rightarrow> action list"
where
  "plan_path conn local_files remote_files last_state path =
     (let local_meta = map_of local_files path;
          remote_meta = map_of remote_files path;
          prev = map_of last_state path
      in case (local_meta, remote_meta) of
           (Some l, Some r) \<Rightarrow>
             if files_differ l r then
               (if local_priority conn \<or> mtime l \<ge> mtime r
                then [(''upload'', path)] else [(''download'', path)])
             else []
         | (Some l, None) \<Rightarrow>
             if prev_both prev then
               (if allow_delete conn
                then [(''delete_local'', path)] else [(''upload'', path)])
             else [(''upload'', path)]
         | (None, Some r) \<Rightarrow>
             if prev_both prev then
               (if allow_delete conn
                then [(''delete_remote'', path)] else [(''download'', path)])
             else [(''download'', path)]
         | (None, None) \<Rightarrow> [])"

text \<open>
  \<open>dirty\<close> is a Python \<open>set\<close> of strings. A set keeps no record of the order in
  which its elements were added; \<open>list(dirty)\<close> enumerates it in the order of the
  interpreter's hash table. That order is the parameter \<open>list_of\<close> of the model.
\<close>

definition plan_actions ::
  "(string set \<Rightarrow> string list) \<Rightarrow> connection \<Rightarrow> snapshot \<Rightarrow> snapshot
     \<Rightarrow> (string \<times> state_entry) list \<Rightarrow> string set \<Rightarrow> action list"
where
  "plan_actions list_of conn local_files remote_files last_state dirty =
     (let all_paths = set (map fst local_files) \<union> set (map fst remote_files);
          ordered = list_of dirty @ sorted_list_of_set (all_paths - dirty)
      in concat (map (plan_path conn local_files remote_files last_state) ordered))"

text \<open>The order in which \<open>_plan_actions\<close> visits the paths.\<close>

definition ordered_paths ::
  "(string set \<Rightarrow> string list) \<Rightarrow> snapshot \<Rightarrow> snapshot \<Rightarrow> string set \<Rightarrow> string list"
where
  "ordered_paths list_of local_files remote_files dirty =
     list_of dirty @
     sorted_list_of_set (set (map fst local_files) \<union> set (map fst remote_files) - dirty)"

text \<open>\<open>mark_dirty\<close> after the path has been made relative: \<open>self.dirty_paths.add\<close>,
  skipped for the empty string.\<close>

definition mark_dirty :: "string \<Rightarrow> string set \<Rightarrow> string set" where
  "mark_dirty relative_str dirty_paths =
     (if relative_str \<noteq> [] then insert relative_str dirty_paths else dirty_paths)"

text \<open>\<open>_build_snapshot\<close>: one entry per path of the union of the two key sets,
  visited in the iteration order of that set.\<close>

definition build_entry :: "snapshot \<Rightarrow> snapshot \<Rightarrow> string \<Rightarrow> sync_entry" where
  "build_entry local_files remote_files path =
     \<lparr> local_exists = (path \<in> set (map fst local_files)),
       local_mtime = map_option mtime (map_of local_files path),
       remote_exists = (path \<in> set (map fst remote_files)),
       remote_mtime = map_option mtime (map_of remote_files path) \<rparr>"

definition build_snapshot ::
  "(string set \<Rightarrow> string list) \<Rightarrow> snapshot \<Rightarrow> snapshot \<Rightarrow> (string \<times> sync_entry) list"
where
  "build_snapshot list_of local_files remote_files =
     fold (\<lambda>path snapshot. AList.update path (build_entry local_files remote_files path) snapshot)
       (list_of (set (map fst local_files) \<union> set (map fst remote_files))) []"

section \<open>Ignore rules (\<open>ignore_parser.py\<close>)\<close>

text \<open>Python string helpers used by the parser and the local walk.\<close>

definition lstrip :: "string \<Rightarrow> string \<Rightarrow> string" where
  "lstrip chars s = dropWhile (\<lambda>c. c \<in> set chars) s"

definition rstrip :: "string \<Rightarrow> string \<Rightarrow> string" where
  "rstrip chars s = rev (dropWhile (\<lambda>c. c \<in> set chars) (rev s))"

definition startswith :: "string \<Rightarrow> string \<Rightarrow> bool" where
  "startswith s pre = (take (length pre) s = pre)"

definition endswith :: "string \<Rightarrow> string \<Rightarrow> bool" where
  "endswith s suf = (length suf \<le> length s \<and> drop (length s - length suf) s = suf)"

text \<open>\<open>s.replace("\\", "/")\<close>; the backslash is character \<open>0x5C\<close>.\<close>

definition replace_backslash :: "string \<Rightarrow> string" where
  "replace_backslash s = map (\<lambda>c. if c = CHR 0x5C then CHR ''/'' else c) s"

text \<open>\<open>s.split("/")[-1]\<close>: what follows the last slash.\<close>

definition basename :: "string \<Rightarrow> string" where
  "basename s = rev (takeWhile (\<lambda>c. c \<noteq> CHR ''/'') (rev s))"

subsection \<open>The standard library's \<open>fnmatch\<close>\<close>

text \<open>
  \<open>fnmatch.fnmatch\<close> belongs to the Python standard library, not to this repository.
  The model follows \<open>fnmatch.translate\<close> of CPython 3.11 on a POSIX system (where
  \<open>normcase\<close> is the identity): \<open>*\<close> matches any run of characters, slashes
  included, \<open>?\<close> matches one character, a bracket expression one character of a set,
  a \<open>[\<close> that is never closed and every other character match themselves. The
  regular expression that \<open>translate\<close> builds is represented by its meaning: a
  bracket expression becomes the set of character ranges that the expression
  \<open>[...]\<close> built for it denotes, and a run of stars matches like one star.
\<close>

datatype glob_token = Star | AnyChar | Lit char | CharSet bool "(char \<times> char) list"

text \<open>
  The text \<open>stuff\<close> between the brackets is cut into chunks at the hyphens that make
  ranges: \<open>skip\<close> counts the characters of the current chunk that the search
  \<open>pat.find('-', k, j)\<close> passes over, \<open>acc\<close> is the chunk read so far.
\<close>

fun chunks_acc :: "nat \<Rightarrow> string \<Rightarrow> string \<Rightarrow> string list" where
  "chunks_acc skip acc [] = [acc]"
| "chunks_acc skip acc (c # rest) =
     (if skip = 0 \<and> c = CHR ''-'' then acc # chunks_acc 2 [] rest
      else chunks_acc (skip - 1) (acc @ [c]) rest)"

text \<open>When the last chunk is empty, the hyphen before it goes to the chunk before.\<close>

definition split_chunks :: "string \<Rightarrow> string list" where
  "split_chunks stuff =
     (let cs = chunks_acc (if startswith stuff ''!'' then 2 else 1) [] stuff
      in if length cs \<ge> 2 \<and> last cs = []
         then butlast (butlast cs) @ [last (butlast cs) @ ''-''] else cs)"

text \<open>The loop that removes empty ranges, from the last chunk to the first: when the
  end of a chunk is greater than the start of the next, both characters go and the two
  chunks are joined.\<close>

fun remove_empty :: "string list \<Rightarrow> string list" where
  "remove_empty (c # d # ds) =
     (case remove_empty (d # ds) of
        [] \<Rightarrow> [c]
      | e # es \<Rightarrow>
          if c \<noteq> [] \<and> e \<noteq> [] \<and> last c > hd e
          then (butlast c @ tl e) # es else c # e # es)"
| "remove_empty cs = cs"

text \<open>
  The chunks joined by hyphens, as the characters of the set expression: \<open>Sep\<close> is
  a joining hyphen, which makes a range of its two neighbours, and \<open>Ch c\<close> is a
  character of a chunk, which \<open>translate\<close> escapes where the expression would read it
  otherwise. A joining hyphen with no character before it stands for itself.
\<close>

datatype class_atom = Ch char | Sep

fun atoms :: "string list \<Rightarrow> class_atom list" where
  "atoms [] = []"
| "atoms [c] = map Ch c"
| "atoms (c # cs) = map Ch c @ Sep # atoms cs"

fun atom_char :: "class_atom \<Rightarrow> char" where
  "atom_char (Ch c) = c"
| "atom_char Sep = CHR ''-''"

fun class_items :: "class_atom list \<Rightarrow> (char \<times> char) list" where
  "class_items (a # Sep # b # rest) = (atom_char a, atom_char b) # class_items rest"
| "class_items (a # rest) = (atom_char a, atom_char a) # class_items rest"
| "class_items [] = []"

text \<open>The set for \<open>stuff\<close>: negated when the text left after the removal of empty
  ranges begins with \<open>!\<close>. An empty set matches nothing, a negated empty set every
  character.\<close>

definition char_set :: "string \<Rightarrow> glob_token" where
  "char_set stuff =
     (let chunks = (if CHR ''-'' \<in> set stuff then remove_empty (split_chunks stuff)
                    else [stuff]);
          expr = atoms chunks
      in if take 1 expr = [Ch (CHR ''!'')]
         then CharSet True (class_items (drop 1 expr))
         else CharSet False (class_items expr))"

text \<open>The text between an opening bracket and its closing bracket, and what follows
  the closing bracket; a \<open>]\<close> right after the opening bracket (or after \<open>[!\<close>)
  does not close.\<close>

definition bracket_end :: "string \<Rightarrow> (string \<times> string) option" where
  "bracket_end s =
     (let neg = (if startswith s ''!'' then ''!'' else []);
          s1 = drop (length neg) s;
          lit = (if startswith s1 '']'' then '']'' else []);
          s2 = drop (length lit) s1;
          body = takeWhile (\<lambda>c. c \<noteq> CHR '']'') s2;
          after = dropWhile (\<lambda>c. c \<noteq> CHR '']'') s2
      in if after = [] then None else Some (neg @ lit @ body, tl after))"

function translate :: "string \<Rightarrow> glob_token list" where
  "translate [] = []"
| "translate (c # rest) =
     (if c = CHR ''*'' then Star # translate rest
      else if c = CHR ''?'' then AnyChar # translate rest
      else if c = CHR ''['' then
        (case bracket_end rest of
           None \<Rightarrow> Lit c # translate rest
         | Some (stuff, rest') \<Rightarrow>
             char_set stuff # translate rest')
      else Lit c # translate rest)"
  by pat_completeness auto
termination
  apply (relation "measure length")
  apply (auto simp: bracket_end_def Let_def less_Suc_eq_le split: if_splits
              intro!: order_trans [OF diff_le_self] order_trans [OF length_dropWhile_le])
  done

fun token_ok :: "glob_token \<Rightarrow> char \<Rightarrow> bool" where
  "token_ok Star c = True"
| "token_ok AnyChar c = True"
| "token_ok (Lit l) c = (c = l)"
| "token_ok (CharSet negated items) c =
     (list_ex (\<lambda>(lo, hi). lo \<le> c \<and> c \<le> hi) items \<noteq> negated)"

fun glob_match :: "glob_token list \<Rightarrow> string \<Rightarrow> bool" where
  "glob_match [] s = (s = [])"
| "glob_match (Star # ts) [] = glob_match ts []"
| "glob_match (Star # ts) (c # cs) = (glob_match ts (c # cs) \<or> glob_match (Star # ts) cs)"
| "glob_match (t # ts) [] = False"
| "glob_match (t # ts) (c # cs) = (token_ok t c \<and> glob_match ts cs)"

definition fnmatch :: "string \<Rightarrow> string \<Rightarrow> bool" where
  "fnmatch name pat = glob_match (translate pat) name"

subsection \<open>\<open>IgnoreRules.should_ignore\<close>\<close>

text \<open>The normalisation of the path at the head of \<open>should_ignore\<close>.\<close>

definition normalize_rel :: "string \<Rightarrow> string" where
  "normalize_rel relative_path =
     (let rel = lstrip ''./'' (replace_backslash relative_path)
      in if endswith rel ''/'' \<and> length rel > 1 then rstrip ''/'' rel else rel)"

text \<open>One pass of the loop over the patterns: the new value of \<open>matched\<close>.\<close>

definition apply_pattern :: "string \<Rightarrow> string \<Rightarrow> bool \<Rightarrow> bool" where
  "apply_pattern rel pattern matched =
     (let negate = startswith pattern ''!'';
          rule0 = (if negate then drop 1 pattern else pattern);
          rule = (if startswith rule0 ''/'' then lstrip ''/'' rule0 else rule0);
          candidate = rel
      in if endswith rule ''/'' then
           (if \<not> startswith candidate (rstrip ''/'' rule) then matched else \<not> negate)
         else if fnmatch candidate rule \<or> fnmatch (basename candidate) rule
           then \<not> negate else matched)"

definition should_ignore :: "string list \<Rightarrow> string \<Rightarrow> bool" where
  "should_ignore patterns relative_path =
     fold (apply_pattern (normalize_rel relative_path)) patterns False"

section \<open>The local walk and the remote filter (\<open>sync_worker.py\<close>)\<close>

text \<open>
  The local tree as \<open>os.walk\<close> sees it: a directory lists its entries, and a file
  carries what \<open>stat\<close> does when the walk reaches it: it returns the time and the
  size, raises \<open>FileNotFoundError\<close>, or raises another error with the given text.
  A directory that \<open>os.walk\<close> does not enter (a symbolic link, an unreadable
  directory) is a directory without entries.
\<close>

datatype stat_result = Stat real int | NotFound | StatError string

datatype fs_entry = File string stat_result | Dir string "fs_entry list"

text \<open>\<open>Path(rel_dir, name).as_posix()\<close> for the name of a directory entry.\<close>

definition posix_join :: "string \<Rightarrow> string \<Rightarrow> string" where
  "posix_join rel_dir name = (if rel_dir = [] then name else rel_dir @ ''/'' @ name)"

text \<open>The loop over \<open>filenames\<close> of one directory; an error of \<open>stat\<close> other than
  \<open>FileNotFoundError\<close> leaves the loop and the walk.\<close>

fun scan_files :: "string list \<Rightarrow> string \<Rightarrow> fs_entry list \<Rightarrow> snapshot \<Rightarrow> string + snapshot" where
  "scan_files ignore rel_dir [] files = Inr files"
| "scan_files ignore rel_dir (Dir d children # entries) files =
     scan_files ignore rel_dir entries files"
| "scan_files ignore rel_dir (File name st # entries) files =
     (let rel_path = lstrip ''./'' (posix_join rel_dir name)
      in if should_ignore ignore rel_path then scan_files ignore rel_dir entries files
         else case st of
                NotFound \<Rightarrow> scan_files ignore rel_dir entries files
              | StatError exc \<Rightarrow> Inl exc
              | Stat m s \<Rightarrow>
                  scan_files ignore rel_dir entries
                    (AList.update rel_path \<lparr>mtime = m, size_b = s\<rparr> files))"

text \<open>\<open>os.walk\<close>, top down: the files of a directory, then each of its
  sub-directories that the ignore rules did not prune.\<close>

function walk :: "string list \<Rightarrow> string \<Rightarrow> fs_entry list \<Rightarrow> snapshot \<Rightarrow> string + snapshot"
  and walk_dirs :: "string list \<Rightarrow> string \<Rightarrow> fs_entry list \<Rightarrow> snapshot \<Rightarrow> string + snapshot"
where
  "walk ignore rel_dir entries files =
     (case scan_files ignore rel_dir entries files of
        Inl exc \<Rightarrow> Inl exc
      | Inr files' \<Rightarrow> walk_dirs ignore rel_dir entries files')"
| "walk_dirs ignore rel_dir [] files = Inr files"
| "walk_dirs ignore rel_dir (File name st # entries) files =
     walk_dirs ignore rel_dir entries files"
| "walk_dirs ignore rel_dir (Dir d children # entries) files =
     (if should_ignore ignore (lstrip ''./'' (posix_join rel_dir d))
      then walk_dirs ignore rel_dir entries files
      else case walk ignore (posix_join rel_dir d) children files of
             Inl exc \<Rightarrow> Inl exc
           | Inr files' \<Rightarrow> walk_dirs ignore rel_dir entries files')"
  by pat_completeness auto
termination
  by (relation "measure (\<lambda>x. case x of
         Inl (i, r, es, f) \<Rightarrow> 2 * size_list size es + 1
       | Inr (i, r, es, f) \<Rightarrow> 2 * size_list size es)") auto

definition scan_local :: "string list \<Rightarrow> fs_entry list \<Rightarrow> string + snapshot" where
  "scan_local ignore tree = walk ignore [] tree []"

text \<open>The dict comprehension of \<open>_sync_cycle\<close> over the remote listing.\<close>

definition filter_remote :: "string list \<Rightarrow> snapshot \<Rightarrow> snapshot" where
  "filter_remote ignore listing = filter (\<lambda>(path, meta). \<not> should_ignore ignore path) listing"

text \<open>No key of a snapshot is ignored.\<close>

definition unignored :: "string list \<Rightarrow> snapshot \<Rightarrow> bool" where
  "unignored ignore files = list_all (\<lambda>(path, meta). \<not> should_ignore ignore path) files"

section \<open>The store (\<open>storage.py\<close>)\<close>

text \<open>
  The tables \<open>logs\<close> and \<open>sync_state\<close> are lists of rows in insertion order. The
  \<open>id\<close> columns, which no code of the worker reads, and the timestamp of a log row
  are left out. The columns \<open>local_exists\<close> and \<open>remote_exists\<close> are integers.
\<close>

record log_entry =
  log_connection_id :: int
  log_type :: string
  log_path :: string
  log_message :: string

record state_row =
  row_connection_id :: int
  row_path :: string
  row_local_exists :: int
  row_local_mtime :: "real option"
  row_remote_exists :: int
  row_remote_mtime :: "real option"
  row_hash :: "string option"

text \<open>\<open>add_log\<close>. The insert can raise (\<open>sqlite3.OperationalError\<close> when the
  database is locked, for instance): \<open>fails\<close> gives the exception for a row, and a
  failed insert writes nothing.\<close>

definition add_log ::
  "(log_entry \<Rightarrow> string option) \<Rightarrow> int \<Rightarrow> string \<Rightarrow> string \<Rightarrow> string \<Rightarrow> log_entry list
     \<Rightarrow> string + log_entry list"
where
  "add_log fails connection_id kind path message table =
     (let row = \<lparr>log_connection_id = connection_id, log_type = kind,
                 log_path = path, log_message = message\<rparr>
      in case fails row of Some exc \<Rightarrow> Inl exc | None \<Rightarrow> Inr (table @ [row]))"

text \<open>The dict that \<open>load_sync_state\<close> builds from one row.\<close>

definition entry_of_row :: "state_row \<Rightarrow> state_entry" where
  "entry_of_row row =
     \<lparr> local_exists = (row_local_exists row \<noteq> 0),
       local_mtime = row_local_mtime row,
       remote_exists = (row_remote_exists row \<noteq> 0),
       remote_mtime = row_remote_mtime row,
       hash = row_hash row \<rparr>"

definition load_sync_state :: "int \<Rightarrow> state_row list \<Rightarrow> (string \<times> state_entry) list" where
  "load_sync_state connection_id table =
     fold (\<lambda>row result. AList.update (row_path row) (entry_of_row row) result)
       (filter (\<lambda>row. row_connection_id row = connection_id) table) []"

text \<open>The row that \<open>save_sync_state\<close> inserts for one entry; an entry built by
  \<open>_build_snapshot\<close> has no \<open>hash\<close> key, so \<open>meta.get("hash")\<close> is \<open>None\<close>.\<close>

definition row_of_entry :: "int \<Rightarrow> string \<Rightarrow> sync_entry \<Rightarrow> state_row" where
  "row_of_entry connection_id path meta =
     \<lparr> row_connection_id = connection_id, row_path = path,
       row_local_exists = of_bool (local_exists meta),
       row_local_mtime = local_mtime meta,
       row_remote_exists = of_bool (remote_exists meta),
       row_remote_mtime = remote_mtime meta,
       row_hash = None \<rparr>"

text \<open>An \<open>INSERT\<close> into \<open>sync_state\<close>, with the constraint
  \<open>UNIQUE(connection_id, path)\<close> of the table: a second row with the same pair
  raises.\<close>

definition insert_row :: "state_row \<Rightarrow> state_row list \<Rightarrow> string + state_row list" where
  "insert_row row table =
     (if (row_connection_id row, row_path row)
           \<in> set (map (\<lambda>r. (row_connection_id r, row_path r)) table)
      then Inl ''UNIQUE constraint failed: sync_state.connection_id, sync_state.path''
      else Inr (table @ [row]))"

text \<open>The loop of \<open>save_sync_state\<close> over \<open>entries.items()\<close>. When an insert raises,
  the loop is left and the \<open>finally\<close> of \<open>_connect\<close> commits what was written.\<close>

fun insert_entries ::
  "int \<Rightarrow> (string \<times> sync_entry) list \<Rightarrow> state_row list \<Rightarrow> string option \<times> state_row list"
where
  "insert_entries connection_id [] table = (None, table)"
| "insert_entries connection_id ((path, meta) # entries) table =
     (case insert_row (row_of_entry connection_id path meta) table of
        Inl exc \<Rightarrow> (Some exc, table)
      | Inr table' \<Rightarrow> insert_entries connection_id entries table')"

text \<open>\<open>save_sync_state\<close>: the exception that leaves it, if any, and the table after
  it.\<close>

definition save_sync_state ::
  "int \<Rightarrow> (string \<times> sync_entry) list \<Rightarrow> state_row list \<Rightarrow> string option \<times> state_row list"
where
  "save_sync_state connection_id entries table =
     insert_entries connection_id entries
       (filter (\<lambda>row. row_connection_id row \<noteq> connection_id) table)"

text \<open>The four fields of a loaded entry that a saved entry has.\<close>

definition entry_fields :: "state_entry \<Rightarrow> sync_entry" where
  "entry_fields e =
     \<lparr> local_exists = local_exists e, local_mtime = local_mtime e,
       remote_exists = remote_exists e, remote_mtime = remote_mtime e \<rparr>"

section \<open>One cycle of the worker (\<open>sync_worker.py\<close>)\<close>

text \<open>
  What the worker changes: the calls of \<open>status_callback\<close> that returned, the two
  tables of the store and its own dirty set.
\<close>

record world =
  status_calls :: "(int \<times> string \<times> string option) list"
  logs :: "log_entry list"
  sync_state :: "state_row list"
  dirty_paths :: "string set"

text \<open>
  What the outside does during one cycle. An exception is the text \<open>str(exc)\<close> of a
  Python \<open>Exception\<close>.
  \<^item> \<open>loop_stop\<close>, \<open>cycle_stop\<close>: the stop event at the test of the loop of \<open>run\<close>
    and at the head of \<open>_sync_cycle\<close>;
  \<^item> \<open>ignore_rules\<close>: the patterns that \<open>IgnoreRules(self.local_root)\<close> loads, or
    the exception of reading the file;
  \<^item> \<open>local_tree\<close>: the local tree;
  \<^item> \<open>load_error\<close>: the exception of the query of \<open>load_sync_state\<close>, if any;
  \<^item> \<open>connect_error\<close>: the exception of opening the SFTP session, if any;
  \<^item> \<open>remote_listing\<close>: the result of \<open>list_recursive\<close>, or its exception;
  \<^item> \<open>action_io\<close>: for an action, the exception of its transfer or deletion, or
    the \<open>stat\<close> of the local file after it;
  \<^item> \<open>close_error\<close>: the exception of closing the session, if any;
  \<^item> \<open>log_error\<close>: the exception of \<open>add_log\<close> for a row, if any;
  \<^item> \<open>status_error\<close>: the exception of \<open>status_callback\<close> (which writes the
    status to the store) for a call, if any;
  \<^item> \<open>save_error\<close>: the exception of the \<open>DELETE\<close> of \<open>save_sync_state\<close>, if
    any;
  \<^item> \<open>iter_order\<close>: the iteration order of a Python set.
\<close>

record cycle_env =
  loop_stop :: bool
  cycle_stop :: bool
  ignore_rules :: "string + string list"
  local_tree :: "fs_entry list"
  load_error :: "string option"
  connect_error :: "string option"
  remote_listing :: "string + snapshot"
  action_io :: "action \<Rightarrow> string + file_meta"
  close_error :: "string option"
  log_error :: "log_entry \<Rightarrow> string option"
  status_error :: "int \<times> string \<times> string option \<Rightarrow> string option"
  save_error :: "string option"
  iter_order :: "string set \<Rightarrow> string list"

text \<open>A call of the status callback: it raises, or the call is recorded.\<close>

definition status_callback ::
  "cycle_env \<Rightarrow> int \<Rightarrow> string \<Rightarrow> string option \<Rightarrow> world \<Rightarrow> string + world"
where
  "status_callback env connection_id status err w =
     (case status_error env (connection_id, status, err) of
        Some exc \<Rightarrow> Inl exc
      | None \<Rightarrow> Inr (w\<lparr>status_calls := status_calls w @ [(connection_id, status, err)]\<rparr>))"

text \<open>A call of \<open>self.storage.add_log\<close>.\<close>

definition log_to ::
  "cycle_env \<Rightarrow> int \<Rightarrow> string \<Rightarrow> string \<Rightarrow> string \<Rightarrow> world \<Rightarrow> string + world"
where
  "log_to env connection_id kind path message w =
     (case add_log (log_error env) connection_id kind path message (logs w) of
        Inl exc \<Rightarrow> Inl exc
      | Inr table \<Rightarrow> Inr (w\<lparr>logs := table\<rparr>))"

text \<open>
  The \<open>try\<close> body of \<open>_execute_action\<close>: the exception that leaves it or the world
  after it, and the two snapshots, which are changed in place before the log row is
  written.
\<close>

definition try_action ::
  "cycle_env \<Rightarrow> int \<Rightarrow> string \<Rightarrow> string \<Rightarrow> snapshot \<Rightarrow> snapshot \<Rightarrow> world
     \<Rightarrow> (string + world) \<times> snapshot \<times> snapshot"
where
  "try_action env cid action path local_files remote_files w =
     (if action = ''upload'' then
        (case action_io env (action, path) of
           Inl exc \<Rightarrow> (Inl exc, local_files, remote_files)
         | Inr stat \<Rightarrow>
             (log_to env cid ''upload'' path ''Uploaded to remote host'' w,
              local_files, AList.update path stat remote_files))
      else if action = ''download'' then
        (case action_io env (action, path) of
           Inl exc \<Rightarrow> (Inl exc, local_files, remote_files)
         | Inr stat \<Rightarrow>
             (log_to env cid ''download'' path ''Downloaded from remote host'' w,
              AList.update path stat local_files, remote_files))
      else if action = ''delete_local'' then
        (case action_io env (action, path) of
           Inl exc \<Rightarrow> (Inl exc, local_files, remote_files)
         | Inr stat \<Rightarrow>
             (log_to env cid ''delete_local'' path ''Removed local file after remote delete'' w,
              AList.delete path local_files, remote_files))
      else if action = ''delete_remote'' then
        (case action_io env (action, path) of
           Inl exc \<Rightarrow> (Inl exc, local_files, remote_files)
         | Inr stat \<Rightarrow>
             (log_to env cid ''delete_remote'' path ''Removed remote file after local delete'' w,
              local_files, AList.delete path remote_files))
      else (Inr w, local_files, remote_files))"

text \<open>
  \<open>_execute_action\<close>: the exception that leaves it, if any, the two snapshots and the
  world after it. An exception of the \<open>try\<close> body is caught and logged; an exception
  of that \<open>add_log\<close> leaves \<open>_execute_action\<close>.
\<close>

definition execute_action ::
  "cycle_env \<Rightarrow> int \<Rightarrow> action \<Rightarrow> snapshot \<times> snapshot \<times> world
     \<Rightarrow> string option \<times> snapshot \<times> snapshot \<times> world"
where
  "execute_action env cid act st =
     (case (act, st) of ((action, path), (local_files, remote_files, w)) \<Rightarrow>
        (case try_action env cid action path local_files remote_files w of
           (Inr w', lf, rf) \<Rightarrow> (None, lf, rf, w')
         | (Inl exc, lf, rf) \<Rightarrow>
             (case log_to env cid ''error'' path exc w of
                Inl exc' \<Rightarrow> (Some exc', lf, rf, w)
              | Inr w' \<Rightarrow> (None, lf, rf, w'))))"

text \<open>The loop \<open>for action, path in actions\<close>; an exception that leaves
  \<open>_execute_action\<close> leaves the loop.\<close>

fun execute_all ::
  "cycle_env \<Rightarrow> int \<Rightarrow> action list \<Rightarrow> snapshot \<times> snapshot \<times> world
     \<Rightarrow> string option \<times> snapshot \<times> snapshot \<times> world"
where
  "execute_all env cid [] st = (None, st)"
| "execute_all env cid (act # acts) st =
     (case execute_action env cid act st of
        (Some exc, st') \<Rightarrow> (Some exc, st')
      | (None, st') \<Rightarrow> execute_all env cid acts st')"

text \<open>The body of the \<open>with SFTPClient(...) as remote:\<close> block: the exception that
  leaves it or the two snapshots after the actions, and the world after it.\<close>

definition session_body ::
  "cycle_env \<Rightarrow> connection \<Rightarrow> string list \<Rightarrow> snapshot \<Rightarrow> (string \<times> state_entry) list
     \<Rightarrow> string set \<Rightarrow> world \<Rightarrow> (string + snapshot \<times> snapshot) \<times> world"
where
  "session_body env conn ignore local_snapshot last_state dirty w =
     (case remote_listing env of
        Inl exc \<Rightarrow> (Inl exc, w)
      | Inr files \<Rightarrow>
          (let remote_snapshot = filter_remote ignore files;
               actions = plan_actions (iter_order env) conn local_snapshot
                           remote_snapshot last_state dirty
           in case (if actions \<noteq> []
                    then status_callback env (conn_id conn) ''Syncing'' None w
                    else Inr w) of
                Inl exc \<Rightarrow> (Inl exc, w)
              | Inr w1 \<Rightarrow>
                  (case execute_all env (conn_id conn) actions
                          (local_snapshot, remote_snapshot, w1) of
                     (Some exc, lf, rf, w2) \<Rightarrow> (Inl exc, w2)
                   | (None, lf, rf, w2) \<Rightarrow> (Inr (lf, rf), w2))))"

text \<open>
  The \<open>with\<close> block. An exception of \<open>__enter__\<close> skips the body and
  \<open>__exit__\<close>; \<open>__exit__\<close> closes the session after the body, whether the body
  raised or not, and an exception of \<open>__exit__\<close> replaces the one of the body.
\<close>

definition sftp_block ::
  "cycle_env \<Rightarrow> connection \<Rightarrow> string list \<Rightarrow> snapshot \<Rightarrow> (string \<times> state_entry) list
     \<Rightarrow> string set \<Rightarrow> world \<Rightarrow> (string + snapshot \<times> snapshot) \<times> world"
where
  "sftp_block env conn ignore local_snapshot last_state dirty w =
     (case connect_error env of
        Some exc \<Rightarrow> (Inl exc, w)
      | None \<Rightarrow>
          (case session_body env conn ignore local_snapshot last_state dirty w of
             (res, w') \<Rightarrow>
               (case close_error env of
                  Some exc \<Rightarrow> (Inl exc, w')
                | None \<Rightarrow> (res, w'))))"

text \<open>The \<open>except Exception\<close> clause of \<open>_sync_cycle\<close>: an exception of the status
  callback or of \<open>add_log\<close> leaves the clause and the cycle. The sleep of five
  seconds before the \<open>return\<close> changes nothing.\<close>

definition cycle_handler :: "cycle_env \<Rightarrow> int \<Rightarrow> string \<Rightarrow> world \<Rightarrow> string option \<times> world" where
  "cycle_handler env cid exc w =
     (case status_callback env cid ''Error'' (Some exc) w of
        Inl exc' \<Rightarrow> (Some exc', w)
      | Inr w1 \<Rightarrow>
          (case log_to env cid ''error'' [] exc w1 of
             Inl exc' \<Rightarrow> (Some exc', w1)
           | Inr w2 \<Rightarrow> (None, w2)))"

text \<open>What follows the \<open>try\<close> statement: the new sync state is built and saved, and
  the status becomes \<open>Running\<close>.\<close>

definition cycle_finish ::
  "cycle_env \<Rightarrow> int \<Rightarrow> snapshot \<Rightarrow> snapshot \<Rightarrow> world \<Rightarrow> string option \<times> world"
where
  "cycle_finish env cid lf rf w =
     (let snapshot = build_snapshot (iter_order env) lf rf
      in case save_error env of
           Some exc \<Rightarrow> (Some exc, w)
         | None \<Rightarrow>
             (case save_sync_state cid snapshot (sync_state w) of
                (Some exc, table) \<Rightarrow> (Some exc, w\<lparr>sync_state := table\<rparr>)
              | (None, table) \<Rightarrow>
                  (case status_callback env cid ''Running'' None (w\<lparr>sync_state := table\<rparr>) of
                     Inl exc \<Rightarrow> (Some exc, w\<lparr>sync_state := table\<rparr>)
                   | Inr w' \<Rightarrow> (None, w'))))"

text \<open>\<open>_sync_cycle\<close>: the exception that leaves it, if any, and the world after it.\<close>

definition sync_cycle :: "cycle_env \<Rightarrow> connection \<Rightarrow> world \<Rightarrow> string option \<times> world" where
  "sync_cycle env conn w =
     (if cycle_stop env then (None, w)
      else case ignore_rules env of
        Inl exc \<Rightarrow> (Some exc, w)
      | Inr ignore \<Rightarrow>
         (case status_callback env (conn_id conn) ''Syncing'' None w of
            Inl exc \<Rightarrow> (Some exc, w)
          | Inr w1 \<Rightarrow>
             (case scan_local ignore (local_tree env) of
                Inl exc \<Rightarrow> (Some exc, w1)
              | Inr local_snapshot \<Rightarrow>
                 (case load_error env of
                    Some exc \<Rightarrow> (Some exc, w1)
                  | None \<Rightarrow>
                     (let last_state = load_sync_state (conn_id conn) (sync_state w1);
                          dirty = dirty_paths w1;
                          w2 = w1\<lparr>dirty_paths := {}\<rparr>
                      in case sftp_block env conn ignore local_snapshot last_state dirty w2 of
                           (Inl exc, w3) \<Rightarrow> cycle_handler env (conn_id conn) exc w3
                         | (Inr (lf, rf), w3) \<Rightarrow>
                             cycle_finish env (conn_id conn) lf rf w3)))))"

text \<open>The \<open>finally\<close> clause of \<open>run\<close>: the status becomes \<open>Stopped\<close>, and the
  pending exception, if any, goes on unless the callback raises itself.\<close>

definition run_finally ::
  "cycle_env \<Rightarrow> int \<Rightarrow> string option \<Rightarrow> world \<Rightarrow> string option \<times> world"
where
  "run_finally env cid pending w =
     (case status_callback env cid ''Stopped'' None w of
        Inl exc \<Rightarrow> (Some exc, w)
      | Inr w' \<Rightarrow> (pending, w'))"

text \<open>
  The loop of \<open>run\<close> with its \<open>finally\<close>, over the cycles whose environment is
  given. The result is \<open>None\<close> while the worker is still running after them, and
  otherwise the exception that ended the thread, if any, with the world it leaves. The
  file-system observer and the wait between two cycles are left out.
\<close>

fun run :: "connection \<Rightarrow> cycle_env list \<Rightarrow> world \<Rightarrow> (string option \<times> world) option" where
  "run conn [] w = None"
| "run conn (env # envs) w =
     (if loop_stop env then Some (run_finally env (conn_id conn) None w)
      else case sync_cycle env conn w of
             (Some exc, w') \<Rightarrow> Some (run_finally env (conn_id conn) (Some exc) w')
           | (None, w') \<Rightarrow> run conn envs w')"

subsection \<open>Exceptions that leave the execution of an action\<close>

text \<open>The row of type \<open>error\<close> that \<open>_execute_action\<close> and \<open>_sync_cycle\<close> write for
  an exception, and the row that \<open>_execute_action\<close> writes after an action that
  succeeded.\<close>

definition error_row :: "int \<Rightarrow> string \<Rightarrow> string \<Rightarrow> log_entry" where
  "error_row cid path exc =
     \<lparr>log_connection_id = cid, log_type = ''error'', log_path = path, log_message = exc\<rparr>"

definition success_row :: "int \<Rightarrow> string \<Rightarrow> string \<Rightarrow> log_entry" where
  "success_row cid action path =
     \<lparr>log_connection_id = cid, log_type = action, log_path = path,
      log_message =
        (if action = ''upload'' then ''Uploaded to remote host''
         else if action = ''download'' then ''Downloaded from remote host''
         else if action = ''delete_local'' then ''Removed local file after remote delete''
         else ''Removed remote file after local delete'')\<rparr>"

text \<open>
  When an exception leaves \<open>_execute_action\<close>, in terms of what the outside does: the
  transfer or deletion raises and the write of its error row raises, or the write of the
  row of the successful action raises and the write of the error row for that exception
  raises too. The result is the exception of the last write.
\<close>

definition action_raises :: "cycle_env \<Rightarrow> int \<Rightarrow> action \<Rightarrow> string option" where
  "action_raises env cid act =
     (case act of (action, path) \<Rightarrow>
        if action \<in> {''upload'', ''download'', ''delete_local'', ''delete_remote''} then
          (case action_io env (action, path) of
             Inl exc \<Rightarrow> log_error env (error_row cid path exc)
           | Inr stat \<Rightarrow>
               (case log_error env (success_row cid action path) of
                  None \<Rightarrow> None
                | Some exc \<Rightarrow> log_error env (error_row cid path exc)))
        else None)"

subsection \<open>Example environments\<close>

text \<open>A connection without deletion and without local priority, a store that holds
  one row of an earlier cycle, and a cycle in which everything succeeds: one local file,
  an empty remote tree.\<close>

definition conn0 :: connection where
  "conn0 = \<lparr>conn_id = 1, allow_delete = False, local_priority = False\<rparr>"

definition world0 :: world where
  "world0 =
     \<lparr> status_calls = [], logs = [],
       sync_state = [\<lparr>row_connection_id = 1, row_path = ''old.txt'', row_local_exists = 1,
                      row_local_mtime = Some 5, row_remote_exists = 1,
                      row_remote_mtime = Some 5, row_hash = None\<rparr>],
       dirty_paths = {} \<rparr>"

definition env_ok :: cycle_env where
  "env_ok =
     \<lparr> loop_stop = False, cycle_stop = False, ignore_rules = Inr [],
       local_tree = [File ''a.txt'' (Stat 100 10)],
       load_error = None, connect_error = None, remote_listing = Inr [],
       action_io = (\<lambda>a. Inr \<lparr>mtime = 100, size_b = 10\<rparr>),
       close_error = None, log_error = (\<lambda>row. None), status_error = (\<lambda>call. None),
       save_error = None, iter_order = sorted_list_of_set \<rparr>"

text \<open>The same cycle when the SFTP session cannot be opened, and when \<open>stat\<close> of the
  local file raises \<open>PermissionError\<close>.\<close>

definition env_connect_fails :: cycle_env where
  "env_connect_fails = env_ok\<lparr>connect_error := Some ''Authentication failed.''\<rparr>"

definition env_scan_fails :: cycle_env where
  "env_scan_fails =
     env_ok\<lparr>local_tree := [File ''a.txt'' (StatError ''[Errno 13] Permission denied'')]\<rparr>"

text \<open>The same cycle when the database is locked while \<open>_execute_action\<close> writes its
  rows for \<open>a.txt\<close>, and the cycle with the failing session when the database is
  locked for every log row.\<close>

definition env_action_raises :: cycle_env where
  "env_action_raises =
     env_ok\<lparr>log_error := (\<lambda>row. if log_path row = ''a.txt''
                                then Some ''database is locked'' else None)\<rparr>"

definition env_handler_fails :: cycle_env where
  "env_handler_fails =
     env_connect_fails\<lparr>log_error := (\<lambda>row. Some ''database is locked'')\<rparr>"

section \<open>Properties of the planner\<close>

lemma plan_path_key: "a \<in> set (plan_path conn lf rf ls q) \<Longrightarrow> snd a = q"
  by (auto simp: plan_path_def Let_def split: option.splits if_splits)

lemma filter_concat_key:
  assumes "\<And>q a. a \<in> set (f q) \<Longrightarrow> snd a = q"
  shows "distinct xs \<Longrightarrow> p \<in> set xs \<Longrightarrow>
         filter (\<lambda>a. snd a = p) (concat (map f xs)) = f p"
proof (induction xs)
  case Nil
  then show ?case by simp
next
  case (Cons x xs)
  have same: "filter (\<lambda>a. snd a = p) (f p) = f p"
    using assms by (simp add: filter_id_conv)
  have other: "q \<noteq> p \<Longrightarrow> filter (\<lambda>a. snd a = p) (f q) = []" for q
    using assms by (auto simp: filter_empty_conv)
  have absent: "p \<notin> set ys \<Longrightarrow> filter (\<lambda>a. snd a = p) (concat (map f ys)) = []" for ys
    using assms by (auto simp: filter_empty_conv)
  show ?case
  proof (cases "x = p")
    case True
    with Cons.prems have "p \<notin> set xs" by simp
    with True same absent show ?thesis by simp
  next
    case False
    with Cons other show ?thesis by simp
  qed
qed

lemma ordered_paths_distinct:
  assumes "set (list_of dirty) = dirty" and "distinct (list_of dirty)"
  shows "distinct (ordered_paths list_of lf rf dirty)"
  using assms by (auto simp: ordered_paths_def)

lemma ordered_paths_member:
  assumes "set (list_of dirty) = dirty"
    and "p \<in> set (map fst lf) \<union> set (map fst rf)"
  shows "p \<in> set (ordered_paths list_of lf rf dirty)"
  using assms by (auto simp: ordered_paths_def)

lemma plan_actions_ordered:
  "plan_actions list_of conn lf rf ls dirty =
     concat (map (plan_path conn lf rf ls) (ordered_paths list_of lf rf dirty))"
  by (simp add: plan_actions_def ordered_paths_def Let_def)

lemma actions_of_path:
  assumes "set (list_of dirty) = dirty" and "distinct (list_of dirty)"
    and "p \<in> set (map fst lf) \<union> set (map fst rf)"
  shows "filter (\<lambda>a. snd a = p) (plan_actions list_of conn lf rf ls dirty) =
         plan_path conn lf rf ls p"
  unfolding plan_actions_ordered
proof (rule filter_concat_key)
  show "\<And>q a. a \<in> set (plan_path conn lf rf ls q) \<Longrightarrow> snd a = q"
    by (rule plan_path_key)
  show "distinct (ordered_paths list_of lf rf dirty)"
    using assms(1,2) by (rule ordered_paths_distinct)
  show "p \<in> set (ordered_paths list_of lf rf dirty)"
    using assms(1,3) by (rule ordered_paths_member)
qed

lemma map_of_key: "map_of xs p = Some v \<Longrightarrow> p \<in> set (map fst xs)"
  by (metis map_of_eq_None_iff option.distinct(1) set_map)

text \<open>
  Claim C1. For a path present in both snapshots, the planner emits no action when the
  sizes are identical and the modification times differ by at most one second;
  otherwise it emits exactly one action for the path: \<open>upload\<close> if
  \<open>local_priority\<close> is set or the local time is not older than the remote one,
  \<open>download\<close> otherwise. The hypotheses on \<open>list_of\<close> say that it enumerates
  the dirty set without repetition, as iterating a Python set does.
\<close>

theorem both_sides_action:
  assumes "map_of local_files p = Some l" and "map_of remote_files p = Some r"
    and "set (list_of dirty) = dirty" and "distinct (list_of dirty)"
  shows "filter (\<lambda>a. snd a = p)
           (plan_actions list_of conn local_files remote_files last_state dirty) =
         (if size_b l = size_b r \<and> \<bar>mtime l - mtime r\<bar> \<le> 1 then []
          else if local_priority conn \<or> mtime l \<ge> mtime r then [(''upload'', p)]
          else [(''download'', p)])"
proof -
  have "p \<in> set (map fst local_files) \<union> set (map fst remote_files)"
    using map_of_key [OF assms(1)] by simp
  then have "filter (\<lambda>a. snd a = p)
           (plan_actions list_of conn local_files remote_files last_state dirty) =
        plan_path conn local_files remote_files last_state p"
    using assms(3,4) by (simp add: actions_of_path)
  also have "\<dots> = (if size_b l = size_b r \<and> \<bar>mtime l - mtime r\<bar> \<le> 1 then []
          else if local_priority conn \<or> mtime l \<ge> mtime r then [(''upload'', p)]
          else [(''download'', p)])"
    using assms(1,2) by (auto simp: plan_path_def files_differ_def Let_def)
  finally show ?thesis .
qed

text \<open>Scenario S1 of the specification: the remote file is newer.\<close>

theorem both_sides_action_witness:
  "filter (\<lambda>a. snd a = ''a.txt'')
     (plan_actions sorted_list_of_set
        \<lparr>conn_id = 1, allow_delete = False, local_priority = False\<rparr>
        [(''a.txt'', \<lparr>mtime = 100, size_b = 10\<rparr>)]
        [(''a.txt'', \<lparr>mtime = 200, size_b = 10\<rparr>)] [] {}) = [(''download'', ''a.txt'')]"
  using both_sides_action [of "[(''a.txt'', \<lparr>mtime = 100, size_b = 10\<rparr>)]" "''a.txt''"
      "\<lparr>mtime = 100, size_b = 10\<rparr>" "[(''a.txt'', \<lparr>mtime = 200, size_b = 10\<rparr>)]"
      "\<lparr>mtime = 200, size_b = 10\<rparr>" sorted_list_of_set "{}"
      "\<lparr>conn_id = 1, allow_delete = False, local_priority = False\<rparr>" "[]"]
  by simp

text \<open>
  Claim C2. For a path present only in the local snapshot the planner emits exactly one
  action: \<open>delete_local\<close> when the prior state records the path with both sides
  present and \<open>allow_delete\<close> is set, \<open>upload\<close> in every other case (no
  prior record, a prior record without both sides, or deletion not allowed). A path
  present only in the remote snapshot is treated symmetrically with
  \<open>delete_remote\<close> and \<open>download\<close>.
\<close>

theorem one_side_action:
  assumes "set (list_of dirty) = dirty" and "distinct (list_of dirty)"
  shows "(map_of local_files p = Some l \<and> map_of remote_files p = None \<longrightarrow>
            filter (\<lambda>a. snd a = p)
              (plan_actions list_of conn local_files remote_files last_state dirty) =
            [(if (\<exists>e. map_of last_state p = Some e \<and> local_exists e \<and> remote_exists e)
                   \<and> allow_delete conn
              then ''delete_local'' else ''upload'', p)]) \<and>
         (map_of remote_files p = Some r \<and> map_of local_files p = None \<longrightarrow>
            filter (\<lambda>a. snd a = p)
              (plan_actions list_of conn local_files remote_files last_state dirty) =
            [(if (\<exists>e. map_of last_state p = Some e \<and> local_exists e \<and> remote_exists e)
                   \<and> allow_delete conn
              then ''delete_remote'' else ''download'', p)])"
proof -
  have both: "prev_both (map_of last_state p) =
        (\<exists>e. map_of last_state p = Some e \<and> local_exists e \<and> remote_exists e)"
    by (simp add: prev_both_def split: option.splits)
  have sel: "q \<in> set (map fst local_files) \<union> set (map fst remote_files) \<Longrightarrow>
      filter (\<lambda>a. snd a = q)
        (plan_actions list_of conn local_files remote_files last_state dirty) =
      plan_path conn local_files remote_files last_state q" for q
    using assms by (rule actions_of_path)
  show ?thesis
  proof (intro conjI impI)
    assume h: "map_of local_files p = Some l \<and> map_of remote_files p = None"
    then have "p \<in> set (map fst local_files) \<union> set (map fst remote_files)"
      using map_of_key [of local_files p l] by simp
    then show "filter (\<lambda>a. snd a = p)
              (plan_actions list_of conn local_files remote_files last_state dirty) =
            [(if (\<exists>e. map_of last_state p = Some e \<and> local_exists e \<and> remote_exists e)
                   \<and> allow_delete conn
              then ''delete_local'' else ''upload'', p)]"
      using h both by (auto simp: sel plan_path_def)
  next
    assume h: "map_of remote_files p = Some r \<and> map_of local_files p = None"
    then have "p \<in> set (map fst local_files) \<union> set (map fst remote_files)"
      using map_of_key [of remote_files p r] by simp
    then show "filter (\<lambda>a. snd a = p)
              (plan_actions list_of conn local_files remote_files last_state dirty) =
            [(if (\<exists>e. map_of last_state p = Some e \<and> local_exists e \<and> remote_exists e)
                   \<and> allow_delete conn
              then ''delete_remote'' else ''download'', p)]"
      using h both by (auto simp: sel plan_path_def)
  qed
qed

text \<open>Scenario S3 of the specification, and a remote-only file that was never on
  the local side.\<close>

theorem one_side_action_witness:
  "filter (\<lambda>a. snd a = ''b.txt'')
     (plan_actions sorted_list_of_set
        \<lparr>conn_id = 1, allow_delete = True, local_priority = False\<rparr>
        [(''b.txt'', \<lparr>mtime = 100, size_b = 10\<rparr>)] []
        [(''b.txt'', \<lparr>local_exists = True, local_mtime = Some 100, remote_exists = True,
            remote_mtime = Some 100, hash = None\<rparr>)] {}) = [(''delete_local'', ''b.txt'')] \<and>
   filter (\<lambda>a. snd a = ''c.txt'')
     (plan_actions sorted_list_of_set
        \<lparr>conn_id = 1, allow_delete = True, local_priority = False\<rparr>
        [] [(''c.txt'', \<lparr>mtime = 100, size_b = 10\<rparr>)]
        [(''c.txt'', \<lparr>local_exists = False, local_mtime = None, remote_exists = True,
            remote_mtime = Some 100, hash = None\<rparr>)] {}) = [(''download'', ''c.txt'')]"
  using one_side_action [of sorted_list_of_set "{}"
      "[(''b.txt'', \<lparr>mtime = 100, size_b = 10\<rparr>)]" "''b.txt''"
      "\<lparr>mtime = 100, size_b = 10\<rparr>" "[]"
      "\<lparr>conn_id = 1, allow_delete = True, local_priority = False\<rparr>"
      "[(''b.txt'', \<lparr>local_exists = True, local_mtime = Some 100, remote_exists = True,
            remote_mtime = Some 100, hash = None\<rparr>)]"]
    one_side_action [of sorted_list_of_set "{}" "[]" "''c.txt''" undefined
      "[(''c.txt'', \<lparr>mtime = 100, size_b = 10\<rparr>)]"
      "\<lparr>conn_id = 1, allow_delete = True, local_priority = False\<rparr>"
      "[(''c.txt'', \<lparr>local_exists = False, local_mtime = None, remote_exists = True,
            remote_mtime = Some 100, hash = None\<rparr>)]" "\<lparr>mtime = 100, size_b = 10\<rparr>"]
  by simp

text \<open>
  Claim C3. When \<open>allow_delete\<close> is false the plan holds neither a
  \<open>delete_local\<close> nor a \<open>delete_remote\<close> action, whatever the snapshots, the
  prior state, the dirty set and its iteration order are.
\<close>

theorem no_delete_without_permission:
  "\<not> allow_delete conn \<Longrightarrow>
     (''delete_local'', p) \<notin> set (plan_actions list_of conn local_files remote_files last_state dirty)
   \<and> (''delete_remote'', p) \<notin> set (plan_actions list_of conn local_files remote_files last_state dirty)"
  by (auto simp: plan_actions_def plan_path_def Let_def split: option.splits if_splits)

text \<open>Scenario S4 of the specification: the plan has no deletion.\<close>

theorem no_delete_without_permission_witness:
  "(''delete_local'', ''b.txt'') \<notin> set (plan_actions sorted_list_of_set
        \<lparr>conn_id = 1, allow_delete = False, local_priority = False\<rparr>
        [(''b.txt'', \<lparr>mtime = 100, size_b = 10\<rparr>)] []
        [(''b.txt'', \<lparr>local_exists = True, local_mtime = Some 100, remote_exists = True,
            remote_mtime = Some 100, hash = None\<rparr>)] {})
   \<and> (''delete_remote'', ''b.txt'') \<notin> set (plan_actions sorted_list_of_set
        \<lparr>conn_id = 1, allow_delete = False, local_priority = False\<rparr>
        [(''b.txt'', \<lparr>mtime = 100, size_b = 10\<rparr>)] []
        [(''b.txt'', \<lparr>local_exists = True, local_mtime = Some 100, remote_exists = True,
            remote_mtime = Some 100, hash = None\<rparr>)] {})"
  using no_delete_without_permission [of
      "\<lparr>conn_id = 1, allow_delete = False, local_priority = False\<rparr>" "''b.txt''"
      sorted_list_of_set "[(''b.txt'', \<lparr>mtime = 100, size_b = 10\<rparr>)]" "[]"
      "[(''b.txt'', \<lparr>local_exists = True, local_mtime = Some 100, remote_exists = True,
            remote_mtime = Some 100, hash = None\<rparr>)]" "{}"]
  by simp

section \<open>Ignore containment\<close>


lemma plan_path_present:
  "a \<in> set (plan_path conn lf rf ls q) \<Longrightarrow> map_of lf q \<noteq> None \<or> map_of rf q \<noteq> None"
  by (cases "map_of lf q"; cases "map_of rf q") (simp_all add: plan_path_def)

lemma plan_actions_member:
  "(a, p) \<in> set (plan_actions list_of conn lf rf ls dirty) \<Longrightarrow>
     p \<in> set (map fst lf) \<union> set (map fst rf)"
proof -
  assume "(a, p) \<in> set (plan_actions list_of conn lf rf ls dirty)"
  then obtain q where q: "(a, p) \<in> set (plan_path conn lf rf ls q)"
    by (auto simp: plan_actions_def Let_def)
  then have "q = p" using plan_path_key by fastforce
  with q have "map_of lf p \<noteq> None \<or> map_of rf p \<noteq> None"
    using plan_path_present by blast
  then show ?thesis by (auto simp: map_of_eq_None_iff)
qed

lemma unignored_update:
  "unignored ignore files \<Longrightarrow> \<not> should_ignore ignore k \<Longrightarrow>
     unignored ignore (AList.update k v files)"
  by (induction files) (auto simp: unignored_def)

lemma scan_files_unignored:
  "scan_files ignore rel_dir entries files = Inr files' \<Longrightarrow> unignored ignore files \<Longrightarrow>
     unignored ignore files'"
proof (induction ignore rel_dir entries files rule: scan_files.induct)
  case (1 ignore rel_dir files)
  then show ?case by simp
next
  case (2 ignore rel_dir d children entries files)
  then show ?case by simp
next
  case (3 ignore rel_dir name st entries files)
  then show ?case
    by (auto simp: Let_def unignored_update split: if_splits stat_result.splits)
qed

lemma walk_unignored:
  "walk ignore rel_dir entries files = Inr files' \<Longrightarrow> unignored ignore files \<Longrightarrow>
     unignored ignore files'"
  "walk_dirs ignore rel_dir entries files = Inr files' \<Longrightarrow> unignored ignore files \<Longrightarrow>
     unignored ignore files'"
proof (induction ignore rel_dir entries files and ignore rel_dir entries files
       arbitrary: files' and files' rule: walk_walk_dirs.induct)
  case (1 ignore rel_dir entries files)
  then show ?case
    by (auto split: sum.splits dest: scan_files_unignored)
next
  case (2 ignore rel_dir files)
  then show ?case by simp
next
  case (3 ignore rel_dir name st entries files)
  then show ?case by simp
next
  case (4 ignore rel_dir d children entries files)
  then show ?case
    by (auto split: sum.splits if_splits)
qed

lemma scan_local_unignored:
  "scan_local ignore tree = Inr files \<Longrightarrow> p \<in> set (map fst files) \<Longrightarrow> \<not> should_ignore ignore p"
proof -
  assume a: "scan_local ignore tree = Inr files" and b: "p \<in> set (map fst files)"
  have "unignored ignore []" by (simp add: unignored_def)
  with a have "unignored ignore files"
    using walk_unignored(1) [of ignore "[]" tree "[]" files] by (simp add: scan_local_def)
  with b show ?thesis by (auto simp: unignored_def list_all_iff)
qed

lemma filter_remote_unignored:
  "p \<in> set (map fst (filter_remote ignore listing)) \<Longrightarrow> \<not> should_ignore ignore p"
  by (auto simp: filter_remote_def)

text \<open>
  Claim C5. A path that the ignore rules of the cycle ignore has no action in the plan
  of that cycle: the local walk skips it, the filter on the remote listing drops it,
  and a path in neither snapshot gets no action even when it is dirty. This holds for
  every tree, remote listing, prior state, dirty set and iteration order.
\<close>

theorem ignored_path_never_planned:
  assumes "should_ignore ignore p" and "scan_local ignore tree = Inr local_snapshot"
  shows "(a, p) \<notin> set (plan_actions list_of conn local_snapshot
                          (filter_remote ignore listing) last_state dirty)"
proof
  assume "(a, p) \<in> set (plan_actions list_of conn local_snapshot
                          (filter_remote ignore listing) last_state dirty)"
  then have "p \<in> set (map fst local_snapshot) \<union> set (map fst (filter_remote ignore listing))"
    by (rule plan_actions_member)
  then have "\<not> should_ignore ignore p"
    using scan_local_unignored [OF assms(2)] filter_remote_unignored by blast
  with assms(1) show False by simp
qed

text \<open>Scenario S5 of the specification, with the ignored file present on both sides
  and dirty.\<close>

theorem ignored_path_never_planned_witness:
  "should_ignore [''*.log'', ''!keep.log''] ''a.log'' \<and>
   scan_local [''*.log'', ''!keep.log'']
     [File ''a.log'' (Stat 100 10), File ''keep.log'' (Stat 100 5), File ''b.txt'' (Stat 100 7)] =
     Inr [(''keep.log'', \<lparr>mtime = 100, size_b = 5\<rparr>), (''b.txt'', \<lparr>mtime = 100, size_b = 7\<rparr>)] \<and>
   (''download'', ''a.log'') \<notin> set (plan_actions sorted_list_of_set
      \<lparr>conn_id = 1, allow_delete = False, local_priority = False\<rparr>
      [(''keep.log'', \<lparr>mtime = 100, size_b = 5\<rparr>), (''b.txt'', \<lparr>mtime = 100, size_b = 7\<rparr>)]
      (filter_remote [''*.log'', ''!keep.log''] [(''a.log'', \<lparr>mtime = 200, size_b = 10\<rparr>)])
      [] {''a.log''})"
proof -
  have h1: "should_ignore [''*.log'', ''!keep.log''] ''a.log''"
    by code_simp
  have h2: "scan_local [''*.log'', ''!keep.log'']
     [File ''a.log'' (Stat 100 10), File ''keep.log'' (Stat 100 5), File ''b.txt'' (Stat 100 7)] =
     Inr [(''keep.log'', \<lparr>mtime = 100, size_b = 5\<rparr>), (''b.txt'', \<lparr>mtime = 100, size_b = 7\<rparr>)]"
    by code_simp
  show ?thesis
    using h1 h2 ignored_path_never_planned [OF h1 h2] by blast
qed

section \<open>Anchored ignore patterns\<close>

lemma should_ignore_snoc:
  "should_ignore (patterns @ [pattern]) path =
     apply_pattern (normalize_rel path) pattern (should_ignore patterns path)"
  by (simp add: should_ignore_def)

text \<open>
  Claim C8 says that a pattern beginning with \<open>/\<close> is matched against the full
  relative path only, so that a path whose basename alone matches is not affected by
  the rule. The code strips the slash and then tests the full path and the basename
  like for any other pattern: with the single rule \<open>/foo.txt\<close> the path
  \<open>a/foo.txt\<close>, whose full form does not match \<open>foo.txt\<close>, is ignored.
\<close>

theorem anchored_pattern_counterexample:
  "startswith ''/foo.txt'' ''/'' \<and>
   fnmatch (basename (normalize_rel ''a/foo.txt'')) ''foo.txt'' \<and>
   \<not> fnmatch (normalize_rel ''a/foo.txt'') ''foo.txt'' \<and>
   should_ignore [] ''a/foo.txt'' = False \<and>
   should_ignore ([] @ [''/foo.txt'']) ''a/foo.txt'' = True"
  by code_simp

text \<open>
  Claim C8, amended. For a pattern beginning with \<open>/\<close> the leading slashes are
  stripped. When the remainder ends in \<open>/\<close> (a directory pattern) the rule applies
  exactly when the full relative path begins with the remainder without its trailing
  slashes; the basename is not consulted, so a path whose basename alone matches is not
  affected. Otherwise the rule applies when the remainder matches the full relative path
  or the basename of the path. A rule that applies marks the path as ignored, and a rule
  that does not apply leaves the decision of the earlier rules.
\<close>

theorem anchored_pattern_rule:
  assumes "startswith pattern ''/''"
  shows "should_ignore (patterns @ [pattern]) path =
           (if endswith (lstrip ''/'' pattern) ''/'' then
              (if startswith (normalize_rel path) (rstrip ''/'' (lstrip ''/'' pattern))
               then True else should_ignore patterns path)
            else
              (if fnmatch (normalize_rel path) (lstrip ''/'' pattern)
                  \<or> fnmatch (basename (normalize_rel path)) (lstrip ''/'' pattern)
               then True else should_ignore patterns path))"
proof -
  from assms have "\<not> startswith pattern ''!''"
    by (cases pattern) (auto simp: startswith_def)
  with assms show ?thesis
    by (simp add: should_ignore_snoc apply_pattern_def Let_def)
qed

text \<open>The rule \<open>/foo.txt\<close> after \<open>*.log\<close> ignores \<open>a/foo.txt\<close> through the
  basename and leaves \<open>a/bar.txt\<close> alone; the directory rule \<open>/build/\<close> ignores
  \<open>build/x\<close> and leaves \<open>src/build\<close> alone.\<close>

theorem anchored_pattern_rule_witness:
  "startswith ''/foo.txt'' ''/'' \<and> startswith ''/build/'' ''/'' \<and>
   should_ignore ([''*.log''] @ [''/foo.txt'']) ''a/foo.txt'' = True \<and>
   should_ignore ([''*.log''] @ [''/foo.txt'']) ''a/bar.txt'' = False \<and>
   should_ignore ([''*.log''] @ [''/build/'']) ''build/x'' = True \<and>
   should_ignore ([''*.log''] @ [''/build/'']) ''src/build'' = False"
proof -
  have h1: "startswith ''/foo.txt'' ''/''" by code_simp
  have h2: "startswith ''/build/'' ''/''" by code_simp
  have e1: "\<not> endswith (lstrip ''/'' ''/foo.txt'') ''/'' \<and>
      fnmatch (basename (normalize_rel ''a/foo.txt'')) (lstrip ''/'' ''/foo.txt'')"
    by code_simp
  have e2: "\<not> fnmatch (normalize_rel ''a/bar.txt'') (lstrip ''/'' ''/foo.txt'') \<and>
      \<not> fnmatch (basename (normalize_rel ''a/bar.txt'')) (lstrip ''/'' ''/foo.txt'') \<and>
      \<not> should_ignore [''*.log''] ''a/bar.txt''"
    by code_simp
  have e3: "endswith (lstrip ''/'' ''/build/'') ''/'' \<and>
      startswith (normalize_rel ''build/x'') (rstrip ''/'' (lstrip ''/'' ''/build/''))"
    by code_simp
  have e4: "\<not> startswith (normalize_rel ''src/build'') (rstrip ''/'' (lstrip ''/'' ''/build/'')) \<and>
      \<not> should_ignore [''*.log''] ''src/build''"
    by code_simp
  show ?thesis
    using h1 h2 e1 e2 e3 e4
      anchored_pattern_rule [OF h1, of "[''*.log'']" "''a/foo.txt''"]
      anchored_pattern_rule [OF h1, of "[''*.log'']" "''a/bar.txt''"]
      anchored_pattern_rule [OF h2, of "[''*.log'']" "''build/x''"]
      anchored_pattern_rule [OF h2, of "[''*.log'']" "''src/build''"]
    by simp
qed

section \<open>Entries of the new sync state\<close>

lemma fold_update_entries:
  "(p, e) \<in> set (fold (\<lambda>k acc. AList.update k (f k) acc) ks acc0) \<Longrightarrow>
     (p, e) \<in> set acc0 \<or> (p \<in> set ks \<and> e = f p)"
proof (induction ks arbitrary: acc0)
  case Nil
  then show ?case by simp
next
  case (Cons k ks)
  from Cons.prems have "(p, e) \<in> set (fold (\<lambda>k acc. AList.update k (f k) acc) ks
                           (AList.update k (f k) acc0))"
    by simp
  then have "(p, e) \<in> set (AList.update k (f k) acc0) \<or> (p \<in> set ks \<and> e = f p)"
    by (rule Cons.IH)
  moreover have "(p, e) \<in> set (AList.update k (f k) acc0) \<Longrightarrow>
      (p, e) \<in> set acc0 \<or> (p = k \<and> e = f k)"
    by (induction acc0) (auto split: if_splits)
  ultimately show ?case by auto
qed

text \<open>
  Claim C10. Every entry of the map that \<open>_build_snapshot\<close> builds has at least one
  side present, a local time exactly when the local side is present and a remote time
  exactly when the remote side is present. The hypothesis on \<open>list_of\<close> says that
  iterating the union of the key sets yields only its elements.
\<close>

theorem snapshot_entries_consistent:
  assumes "set (list_of (set (map fst local_files) \<union> set (map fst remote_files))) \<subseteq>
             set (map fst local_files) \<union> set (map fst remote_files)"
    and "(p, e) \<in> set (build_snapshot list_of local_files remote_files)"
  shows "(local_exists e \<or> remote_exists e) \<and>
         (local_mtime e \<noteq> None \<longleftrightarrow> local_exists e) \<and>
         (remote_mtime e \<noteq> None \<longleftrightarrow> remote_exists e)"
proof -
  let ?ks = "list_of (set (map fst local_files) \<union> set (map fst remote_files))"
  from assms(2) have "p \<in> set ?ks \<and> e = build_entry local_files remote_files p"
    unfolding build_snapshot_def using fold_update_entries [of p e _ ?ks "[]"] by simp
  with assms(1) have k: "p \<in> set (map fst local_files) \<union> set (map fst remote_files)"
    and e: "e = build_entry local_files remote_files p" by auto
  show ?thesis
    using k unfolding e by (auto simp: build_entry_def map_of_eq_None_iff)
qed

text \<open>A local-only and a remote-only file.\<close>

theorem snapshot_entries_consistent_witness:
  "build_snapshot sorted_list_of_set
     [(''a.txt'', \<lparr>mtime = 100, size_b = 10\<rparr>)]
     [(''b.txt'', \<lparr>mtime = 200, size_b = 5\<rparr>)] =
   [(''a.txt'', \<lparr>local_exists = True, local_mtime = Some 100,
                 remote_exists = False, remote_mtime = None\<rparr>),
    (''b.txt'', \<lparr>local_exists = False, local_mtime = None,
                 remote_exists = True, remote_mtime = Some 200\<rparr>)] \<and>
   (local_exists \<lparr>local_exists = False, local_mtime = None,
                 remote_exists = True, remote_mtime = Some (200::real)\<rparr> \<or>
    remote_exists \<lparr>local_exists = False, local_mtime = None,
                 remote_exists = True, remote_mtime = Some (200::real)\<rparr>)"
proof -
  have o: "sorted_list_of_set (set (map fst [(''a.txt'', \<lparr>mtime = 100, size_b = 10\<rparr>)]) \<union>
              set (map fst [(''b.txt'', \<lparr>mtime = 200, size_b = 5\<rparr>)])) = [''a.txt'', ''b.txt'']"
    by code_simp
  have b: "build_snapshot sorted_list_of_set
     [(''a.txt'', \<lparr>mtime = 100, size_b = 10\<rparr>)]
     [(''b.txt'', \<lparr>mtime = 200, size_b = 5\<rparr>)] =
   [(''a.txt'', \<lparr>local_exists = True, local_mtime = Some 100,
                 remote_exists = False, remote_mtime = None\<rparr>),
    (''b.txt'', \<lparr>local_exists = False, local_mtime = None,
                 remote_exists = True, remote_mtime = Some 200\<rparr>)]"
    unfolding build_snapshot_def o by (simp add: build_entry_def)
  have h: "set (sorted_list_of_set (set (map fst [(''a.txt'', \<lparr>mtime = 100, size_b = 10\<rparr>)]) \<union>
              set (map fst [(''b.txt'', \<lparr>mtime = 200, size_b = 5\<rparr>)]))) \<subseteq>
            set (map fst [(''a.txt'', \<lparr>mtime = 100, size_b = 10\<rparr>)]) \<union>
              set (map fst [(''b.txt'', \<lparr>mtime = 200, size_b = 5\<rparr>)])"
    by simp
  have m: "(''b.txt'', \<lparr>local_exists = False, local_mtime = None,
                 remote_exists = True, remote_mtime = Some 200\<rparr>) \<in>
      set (build_snapshot sorted_list_of_set
     [(''a.txt'', \<lparr>mtime = 100, size_b = 10\<rparr>)]
     [(''b.txt'', \<lparr>mtime = 200, size_b = 5\<rparr>)])"
    unfolding b by simp
  show ?thesis
    using b snapshot_entries_consistent [OF h m] by blast
qed

section \<open>Order of the plan\<close>

text \<open>
  Claim C6 says that the planner visits the dirty paths in the order in which they were
  inserted into the dirty set. \<open>dirty_paths\<close> is a Python set: adding \<open>b\<close> then
  \<open>a\<close> leaves the same set as adding \<open>a\<close> then \<open>b\<close>, and the planner sees
  only the set. With an iteration order that yields \<open>a\<close> before \<open>b\<close> the plan
  uploads \<open>a\<close> first although \<open>b\<close> was marked first, and no iteration order
  follows the insertion order for both histories.
\<close>

theorem dirty_insertion_order_counterexample:
  "mark_dirty ''a'' (mark_dirty ''b'' {}) = mark_dirty ''b'' (mark_dirty ''a'' {}) \<and>
   ordered_paths sorted_list_of_set [] [] (mark_dirty ''a'' (mark_dirty ''b'' {})) = [''a'', ''b''] \<and>
   plan_actions sorted_list_of_set \<lparr>conn_id = 1, allow_delete = False, local_priority = False\<rparr>
     [(''a'', \<lparr>mtime = 100, size_b = 10\<rparr>), (''b'', \<lparr>mtime = 100, size_b = 10\<rparr>)] [] []
     (mark_dirty ''a'' (mark_dirty ''b'' {})) = [(''upload'', ''a''), (''upload'', ''b'')] \<and>
   \<not> (\<exists>list_of.
        ordered_paths list_of [] [] (mark_dirty ''a'' (mark_dirty ''b'' {})) = [''b'', ''a''] \<and>
        ordered_paths list_of [] [] (mark_dirty ''b'' (mark_dirty ''a'' {})) = [''a'', ''b''])"
proof -
  have s: "mark_dirty ''a'' (mark_dirty ''b'' {}) = {''a'', ''b''}"
    "mark_dirty ''b'' (mark_dirty ''a'' {}) = {''a'', ''b''}"
    by (auto simp: mark_dirty_def)
  have o: "sorted_list_of_set {''a'', ''b''} = [''a'', ''b'']"
    by code_simp
  have r: "sorted_list_of_set ({} - {''a'', ''b''}) = ([] :: string list)"
    by simp
  have r2: "sorted_list_of_set (set (map fst [(''a'', \<lparr>mtime = 100, size_b = 10\<rparr>),
       (''b'', \<lparr>mtime = 100, size_b = 10\<rparr>)]) \<union> set (map fst ([] :: snapshot)) - {''a'', ''b''}) = []"
    by simp
  have p: "plan_actions sorted_list_of_set \<lparr>conn_id = 1, allow_delete = False, local_priority = False\<rparr>
     [(''a'', \<lparr>mtime = 100, size_b = 10\<rparr>), (''b'', \<lparr>mtime = 100, size_b = 10\<rparr>)] [] []
     {''a'', ''b''} = [(''upload'', ''a''), (''upload'', ''b'')]"
    unfolding plan_actions_def Let_def r2 o
    by (simp add: plan_path_def prev_both_def)
  show ?thesis
    unfolding s using o r p by (auto simp: ordered_paths_def)
qed

lemma keys_concat_plan:
  "snd ` set (concat (map (plan_path conn lf rf ls) xs)) \<subseteq> set xs"
  using plan_path_key by fastforce

lemma plan_path_length: "length (plan_path conn lf rf ls q) \<le> 1"
  by (cases "map_of lf q"; cases "map_of rf q") (simp_all add: plan_path_def)

lemma map_snd_concat_plan:
  "map snd (concat (map (plan_path conn lf rf ls) xs)) =
     filter (\<lambda>q. plan_path conn lf rf ls q \<noteq> []) xs"
proof (induction xs)
  case Nil
  then show ?case by simp
next
  case (Cons x xs)
  have "plan_path conn lf rf ls x = [] \<or> (\<exists>a. plan_path conn lf rf ls x = [(a, x)])"
  proof (cases "plan_path conn lf rf ls x")
    case Nil
    then show ?thesis by simp
  next
    case (Cons b bs)
    with plan_path_length [of conn lf rf ls x] have "bs = []" by simp
    moreover have "snd b = x" using Cons plan_path_key [of b conn lf rf ls x] by simp
    ultimately show ?thesis using Cons by (cases b) auto
  qed
  with Cons show ?case by auto
qed

lemma plan_path_single:
  "a \<in> set (plan_path conn lf rf ls q) \<Longrightarrow> plan_path conn lf rf ls q = [a]"
proof -
  assume m: "a \<in> set (plan_path conn lf rf ls q)"
  then obtain b bs where c: "plan_path conn lf rf ls q = b # bs"
    by (cases "plan_path conn lf rf ls q") auto
  with plan_path_length [of conn lf rf ls q] have "bs = []" by simp
  with c m show ?thesis by simp
qed

text \<open>
  Claim C6, amended. The plan is the actions of the dirty paths, in the iteration order
  of the dirty set, followed by the actions of the remaining paths of the union of the
  two snapshots, in sorted order: \<open>first\<close> holds one action for every dirty path
  that has one, \<open>rest\<close> one action for every remaining path that has one, each the
  action that the planner decides for its path. So the action of a dirty path precedes
  the action of every path that is not dirty. The hypothesis says that iterating the
  dirty set yields its elements.
\<close>

theorem dirty_paths_planned_first:
  assumes "set (list_of dirty) = dirty"
  shows "(\<exists>first rest.
            plan_actions list_of conn local_files remote_files last_state dirty = first @ rest \<and>
            map snd first =
              filter (\<lambda>q. plan_path conn local_files remote_files last_state q \<noteq> [])
                (list_of dirty) \<and>
            map snd rest =
              filter (\<lambda>q. plan_path conn local_files remote_files last_state q \<noteq> [])
                (sorted_list_of_set
                   (set (map fst local_files) \<union> set (map fst remote_files) - dirty)) \<and>
            snd ` set first \<subseteq> dirty \<and> snd ` set rest \<inter> dirty = {} \<and>
            sorted (map snd rest)) \<and>
         (\<forall>a \<in> set (plan_actions list_of conn local_files remote_files last_state dirty).
            plan_path conn local_files remote_files last_state (snd a) = [a]) \<and>
         (\<forall>i j. i < length (plan_actions list_of conn local_files remote_files last_state dirty) \<and>
                j < length (plan_actions list_of conn local_files remote_files last_state dirty) \<and>
                snd (plan_actions list_of conn local_files remote_files last_state dirty ! i)
                  \<in> dirty \<and>
                snd (plan_actions list_of conn local_files remote_files last_state dirty ! j)
                  \<notin> dirty \<longrightarrow> i < j)"
proof -
  let ?f = "plan_path conn local_files remote_files last_state"
  let ?others = "sorted_list_of_set
     (set (map fst local_files) \<union> set (map fst remote_files) - dirty)"
  let ?first = "concat (map ?f (list_of dirty))"
  let ?rest = "concat (map ?f ?others)"
  let ?plan = "plan_actions list_of conn local_files remote_files last_state dirty"
  have split: "?plan = ?first @ ?rest"
    by (simp add: plan_actions_def Let_def)
  have sub: "snd ` set ?rest \<subseteq> set ?others" by (rule keys_concat_plan)
  have "set ?others \<inter> dirty = {}" by auto
  with sub have disj: "snd ` set ?rest \<inter> dirty = {}" by blast
  have fsub: "snd ` set ?first \<subseteq> dirty"
    using keys_concat_plan [of conn local_files remote_files last_state "list_of dirty"] assms
    by simp
  have "sorted (filter (\<lambda>q. ?f q \<noteq> []) ?others)"
    by (simp add: sorted_wrt_filter)
  then have srt: "sorted (map snd ?rest)" by (simp add: map_snd_concat_plan)
  have part1: "\<exists>first rest.
            ?plan = first @ rest \<and>
            map snd first = filter (\<lambda>q. ?f q \<noteq> []) (list_of dirty) \<and>
            map snd rest = filter (\<lambda>q. ?f q \<noteq> []) ?others \<and>
            snd ` set first \<subseteq> dirty \<and> snd ` set rest \<inter> dirty = {} \<and>
            sorted (map snd rest)"
  proof (intro exI conjI)
    show "?plan = ?first @ ?rest" by (rule split)
    show "map snd ?first = filter (\<lambda>q. ?f q \<noteq> []) (list_of dirty)"
      by (rule map_snd_concat_plan)
    show "map snd ?rest = filter (\<lambda>q. ?f q \<noteq> []) ?others"
      by (rule map_snd_concat_plan)
    show "snd ` set ?first \<subseteq> dirty" by (rule fsub)
    show "snd ` set ?rest \<inter> dirty = {}" by (rule disj)
    show "sorted (map snd ?rest)" by (rule srt)
  qed
  have part2: "\<forall>a \<in> set ?plan. ?f (snd a) = [a]"
  proof
    fix a assume "a \<in> set ?plan"
    then obtain q where q: "a \<in> set (?f q)"
      by (auto simp: plan_actions_def Let_def)
    then have "snd a = q" by (rule plan_path_key)
    with q show "?f (snd a) = [a]" by (simp add: plan_path_single)
  qed
  have len: "length ?plan = length ?first + length ?rest"
    unfolding split by (rule length_append)
  have part3: "\<forall>i j. i < length ?plan \<and> j < length ?plan \<and>
                snd (?plan ! i) \<in> dirty \<and> snd (?plan ! j) \<notin> dirty \<longrightarrow> i < j"
  proof (intro allI impI)
    fix i j
    assume h: "i < length ?plan \<and> j < length ?plan \<and>
                snd (?plan ! i) \<in> dirty \<and> snd (?plan ! j) \<notin> dirty"
    have i: "i < length ?first"
    proof (rule ccontr)
      assume n: "\<not> i < length ?first"
      have k: "i - length ?first < length ?rest"
        using h n len by arith
      have "?plan ! i = ?rest ! (i - length ?first)"
        using n split by (simp add: nth_append)
      moreover have "?rest ! (i - length ?first) \<in> set ?rest"
        using k by (rule nth_mem)
      ultimately have "snd (?plan ! i) \<in> snd ` set ?rest" by simp
      with disj h show False by blast
    qed
    have j: "\<not> j < length ?first"
    proof
      assume l: "j < length ?first"
      then have "?plan ! j = ?first ! j" using split by (simp add: nth_append)
      moreover have "?first ! j \<in> set ?first" using l by (rule nth_mem)
      ultimately have "snd (?plan ! j) \<in> snd ` set ?first" by simp
      with fsub h show False by blast
    qed
    from i j show "i < j" by simp
  qed
  show ?thesis by (rule conjI [OF part1 conjI [OF part2 part3]])
qed

text \<open>Two local files of which the later one in sorted order is dirty.\<close>

theorem dirty_paths_planned_first_witness:
  "set (sorted_list_of_set {''b''}) = {''b''} \<and>
   plan_actions sorted_list_of_set \<lparr>conn_id = 1, allow_delete = False, local_priority = False\<rparr>
     [(''a'', \<lparr>mtime = 100, size_b = 10\<rparr>), (''b'', \<lparr>mtime = 100, size_b = 10\<rparr>)] [] []
     {''b''} = [(''upload'', ''b''), (''upload'', ''a'')] \<and>
   (\<exists>first rest.
      plan_actions sorted_list_of_set \<lparr>conn_id = 1, allow_delete = False, local_priority = False\<rparr>
        [(''a'', \<lparr>mtime = 100, size_b = 10\<rparr>), (''b'', \<lparr>mtime = 100, size_b = 10\<rparr>)] [] []
        {''b''} = first @ rest \<and>
      snd ` set first \<subseteq> {''b''} \<and> snd ` set rest \<inter> {''b''} = {} \<and>
      sorted (map snd rest))"
proof -
  have h: "set (sorted_list_of_set {''b''}) = {''b''}" by simp
  have r: "sorted_list_of_set (set (map fst [(''a'', \<lparr>mtime = 100, size_b = 10\<rparr>),
       (''b'', \<lparr>mtime = 100, size_b = 10\<rparr>)]) \<union> set (map fst ([] :: snapshot)) - {''b''}) = [''a'']"
    by code_simp
  have p: "plan_actions sorted_list_of_set \<lparr>conn_id = 1, allow_delete = False, local_priority = False\<rparr>
     [(''a'', \<lparr>mtime = 100, size_b = 10\<rparr>), (''b'', \<lparr>mtime = 100, size_b = 10\<rparr>)] [] []
     {''b''} = [(''upload'', ''b''), (''upload'', ''a'')]"
    unfolding plan_actions_def Let_def r
    by (simp add: plan_path_def prev_both_def)
  note t0 = dirty_paths_planned_first [of sorted_list_of_set "{''b''}"
           "\<lparr>conn_id = 1, allow_delete = False, local_priority = False\<rparr>"
           "[(''a'', \<lparr>mtime = 100, size_b = 10\<rparr>), (''b'', \<lparr>mtime = 100, size_b = 10\<rparr>)]" "[]" "[]",
           OF h]
  from conjunct1 [OF t0] obtain first rest where
    f: "plan_actions sorted_list_of_set \<lparr>conn_id = 1, allow_delete = False, local_priority = False\<rparr>
        [(''a'', \<lparr>mtime = 100, size_b = 10\<rparr>), (''b'', \<lparr>mtime = 100, size_b = 10\<rparr>)] [] []
        {''b''} = first @ rest"
      "snd ` set first \<subseteq> {''b''}" "snd ` set rest \<inter> {''b''} = {}"
      "sorted (map snd rest)"
    by (elim exE conjE)
  have t: "\<exists>first rest.
      plan_actions sorted_list_of_set \<lparr>conn_id = 1, allow_delete = False, local_priority = False\<rparr>
        [(''a'', \<lparr>mtime = 100, size_b = 10\<rparr>), (''b'', \<lparr>mtime = 100, size_b = 10\<rparr>)] [] []
        {''b''} = first @ rest \<and>
      snd ` set first \<subseteq> {''b''} \<and> snd ` set rest \<inter> {''b''} = {} \<and>
      sorted (map snd rest)"
    using f by (intro exI conjI)
  show ?thesis by (rule conjI [OF h conjI [OF p t]])
qed

section \<open>Saving and loading the sync state\<close>

lemma insert_entries_fresh:
  "distinct (map fst entries) \<Longrightarrow>
   (\<And>r. r \<in> set table \<Longrightarrow> row_connection_id r = cid \<Longrightarrow> row_path r \<notin> set (map fst entries)) \<Longrightarrow>
   insert_entries cid entries table =
     (None, table @ map (\<lambda>(path, meta). row_of_entry cid path meta) entries)"
proof (induction entries arbitrary: table)
  case Nil
  then show ?case by simp
next
  case (Cons pe entries)
  obtain path meta where pe: "pe = (path, meta)" by (cases pe)
  have fresh: "(cid, path) \<notin> set (map (\<lambda>r. (row_connection_id r, row_path r)) table)"
    using Cons.prems(2) [of _] pe by fastforce
  have ins: "insert_row (row_of_entry cid path meta) table =
               Inr (table @ [row_of_entry cid path meta])"
    using fresh by (simp add: insert_row_def row_of_entry_def)
  have "insert_entries cid entries (table @ [row_of_entry cid path meta]) =
          (None, (table @ [row_of_entry cid path meta]) @
                   map (\<lambda>(path, meta). row_of_entry cid path meta) entries)"
  proof (rule Cons.IH)
    show "distinct (map fst entries)" using Cons.prems(1) by simp
  next
    fix r assume a: "r \<in> set (table @ [row_of_entry cid path meta])"
      and c: "row_connection_id r = cid"
    have rp: "row_path (row_of_entry cid path meta) = path"
      by (simp add: row_of_entry_def)
    from a have "r \<in> set table \<or> r = row_of_entry cid path meta" by auto
    then show "row_path r \<notin> set (map fst entries)"
    proof
      assume "r \<in> set table"
      then have "row_path r \<notin> set (map fst (pe # entries))" using c by (rule Cons.prems(2))
      then show ?thesis by simp
    next
      assume "r = row_of_entry cid path meta"
      with rp have "row_path r = path" by simp
      with Cons.prems(1) pe show ?thesis by simp
    qed
  qed
  with ins pe show ?case by simp
qed

lemma fold_update_fresh:
  "distinct (map k xs) \<Longrightarrow> set (map k xs) \<inter> set (map fst acc) = {} \<Longrightarrow>
   fold (\<lambda>x res. AList.update (k x) (v x) res) xs acc = acc @ map (\<lambda>x. (k x, v x)) xs"
proof (induction xs arbitrary: acc)
  case Nil
  then show ?case by simp
next
  case (Cons x xs)
  have "k x \<notin> set (map fst acc)" using Cons.prems(2) by auto
  then have u: "AList.update (k x) (v x) acc = acc @ [(k x, v x)]"
    by (induction acc) auto
  have "fold (\<lambda>x res. AList.update (k x) (v x) res) xs (acc @ [(k x, v x)]) =
          (acc @ [(k x, v x)]) @ map (\<lambda>x. (k x, v x)) xs"
    using Cons.prems by (intro Cons.IH) auto
  with u show ?case by simp
qed

lemma entry_fields_row:
  "entry_fields (entry_of_row (row_of_entry cid path meta)) = meta"
  by (simp add: entry_fields_def entry_of_row_def row_of_entry_def)

lemma load_after_save:
  assumes "distinct (map fst entries)"
  shows "save_sync_state cid entries table =
           (None, filter (\<lambda>row. row_connection_id row \<noteq> cid) table @
                    map (\<lambda>(path, meta). row_of_entry cid path meta) entries)"
    and "load_sync_state cid (snd (save_sync_state cid entries table)) =
           map (\<lambda>(path, meta). (path, entry_of_row (row_of_entry cid path meta))) entries"
proof -
  let ?kept = "filter (\<lambda>row. row_connection_id row \<noteq> cid) table"
  let ?new = "map (\<lambda>(path, meta). row_of_entry cid path meta) entries"
  show s: "save_sync_state cid entries table = (None, ?kept @ ?new)"
    unfolding save_sync_state_def using assms by (rule insert_entries_fresh) simp
  have f: "filter (\<lambda>row. row_connection_id row = cid) (?kept @ ?new) = ?new"
    by (auto simp: filter_empty_conv row_of_entry_def filter_id_conv)
  have p: "map row_path ?new = map fst entries"
    by (auto simp: row_of_entry_def)
  have "fold (\<lambda>row res. AList.update (row_path row) (entry_of_row row) res) ?new [] =
          [] @ map (\<lambda>row. (row_path row, entry_of_row row)) ?new"
  proof (rule fold_update_fresh)
    show "distinct (map row_path ?new)" unfolding p using assms .
    show "set (map row_path ?new) \<inter> set (map fst []) = {}" by simp
  qed
  also have "\<dots> = map (\<lambda>(path, meta). (path, entry_of_row (row_of_entry cid path meta))) entries"
    by (auto simp: row_of_entry_def)
  finally show "load_sync_state cid (snd (save_sync_state cid entries table)) =
           map (\<lambda>(path, meta). (path, entry_of_row (row_of_entry cid path meta))) entries"
    unfolding s load_sync_state_def snd_conv f .
qed

text \<open>
  Claim C9. For every connection id, every table and every sync-state map (a dict, so
  its keys are distinct), \<open>save_sync_state\<close> raises nothing, and
  \<open>load_sync_state\<close> after it returns a map with the same keys and, for every key,
  the same \<open>local_exists\<close>, \<open>local_mtime\<close>, \<open>remote_exists\<close> and
  \<open>remote_mtime\<close>.
\<close>

theorem save_load_round_trip:
  assumes "distinct (map fst entries)"
  shows "fst (save_sync_state cid entries table) = None \<and>
         set (map fst (load_sync_state cid (snd (save_sync_state cid entries table)))) =
           set (map fst entries) \<and>
         map_option entry_fields
           (map_of (load_sync_state cid (snd (save_sync_state cid entries table))) p) =
           map_of entries p"
proof -
  have l: "load_sync_state cid (snd (save_sync_state cid entries table)) =
           map (\<lambda>(path, meta). (path, entry_of_row (row_of_entry cid path meta))) entries"
    using assms by (rule load_after_save(2))
  have m: "map_option entry_fields
             (map_of (map (\<lambda>(path, meta). (path, entry_of_row (row_of_entry cid path meta))) es) p) =
           map_of es p" for es
    by (induction es) (auto simp: entry_fields_row)
  have k: "map fst (map (\<lambda>(path, meta). (path, entry_of_row (row_of_entry cid path meta))) entries) =
           map fst entries"
    by auto
  show ?thesis
    unfolding l using load_after_save(1) [OF assms, of cid table] m k by simp
qed

text \<open>A table that holds an older row of the connection.\<close>

theorem save_load_round_trip_witness:
  "distinct (map fst [(''a.txt'', \<lparr>local_exists = True, local_mtime = Some 100,
                        remote_exists = False, remote_mtime = None\<rparr>)]) \<and>
   fst (save_sync_state 1
          [(''a.txt'', \<lparr>local_exists = True, local_mtime = Some 100,
                        remote_exists = False, remote_mtime = None\<rparr>)]
          [\<lparr>row_connection_id = 1, row_path = ''old.txt'', row_local_exists = 1,
            row_local_mtime = Some 5, row_remote_exists = 1, row_remote_mtime = Some 5,
            row_hash = None\<rparr>]) = None \<and>
   map_option entry_fields
     (map_of (load_sync_state 1 (snd (save_sync_state 1
          [(''a.txt'', \<lparr>local_exists = True, local_mtime = Some 100,
                        remote_exists = False, remote_mtime = None\<rparr>)]
          [\<lparr>row_connection_id = 1, row_path = ''old.txt'', row_local_exists = 1,
            row_local_mtime = Some 5, row_remote_exists = 1, row_remote_mtime = Some 5,
            row_hash = None\<rparr>]))) ''a.txt'') =
     Some \<lparr>local_exists = True, local_mtime = Some 100,
           remote_exists = False, remote_mtime = None\<rparr> \<and>
   map_option entry_fields
     (map_of (load_sync_state 1 (snd (save_sync_state 1
          [(''a.txt'', \<lparr>local_exists = True, local_mtime = Some 100,
                        remote_exists = False, remote_mtime = None\<rparr>)]
          [\<lparr>row_connection_id = 1, row_path = ''old.txt'', row_local_exists = 1,
            row_local_mtime = Some 5, row_remote_exists = 1, row_remote_mtime = Some 5,
            row_hash = None\<rparr>]))) ''old.txt'') = None"
proof -
  have h: "distinct (map fst [(''a.txt'', \<lparr>local_exists = True, local_mtime = Some (100::real),
                        remote_exists = False, remote_mtime = None :: real option\<rparr>)])"
    by simp
  show ?thesis
    using h save_load_round_trip [OF h, of 1 _ "''a.txt''"]
      save_load_round_trip [OF h, of 1 _ "''old.txt''"]
    by simp
qed

section \<open>Errors of a cycle\<close>

lemma log_to_cases:
  "log_to env cid kind path message w =
     (case log_error env \<lparr>log_connection_id = cid, log_type = kind, log_path = path,
                           log_message = message\<rparr> of
        Some exc \<Rightarrow> Inl exc
      | None \<Rightarrow> Inr (w\<lparr>logs := logs w @ [\<lparr>log_connection_id = cid, log_type = kind,
                                            log_path = path, log_message = message\<rparr>]\<rparr>))"
  by (simp add: log_to_def add_log_def Let_def split: option.splits)

lemma try_action_fst:
  "fst (try_action env cid action path lf rf w) =
     (if action \<in> {''upload'', ''download'', ''delete_local'', ''delete_remote''} then
        (case action_io env (action, path) of
           Inl exc \<Rightarrow> Inl exc
         | Inr stat \<Rightarrow>
             log_to env cid action path (log_message (success_row cid action path)) w)
      else Inr w)"
proof -
  consider "action = ''upload''" | "action = ''download''" | "action = ''delete_local''"
    | "action = ''delete_remote''"
    | "action \<notin> {''upload'', ''download'', ''delete_local'', ''delete_remote''}"
    by blast
  then show ?thesis
  proof cases
    case 1
    then show ?thesis by (simp add: try_action_def success_row_def split: sum.splits)
  next
    case 2
    then show ?thesis by (simp add: try_action_def success_row_def split: sum.splits)
  next
    case 3
    then show ?thesis by (simp add: try_action_def success_row_def split: sum.splits)
  next
    case 4
    then show ?thesis by (simp add: try_action_def success_row_def split: sum.splits)
  next
    case 5
    then show ?thesis by (simp add: try_action_def)
  qed
qed

lemma execute_action_fst:
  "fst (execute_action env cid (action, path) (lf, rf, w)) =
     (case fst (try_action env cid action path lf rf w) of
        Inr w' \<Rightarrow> None
      | Inl exc \<Rightarrow>
          (case log_to env cid ''error'' path exc w of Inl exc' \<Rightarrow> Some exc' | Inr w' \<Rightarrow> None))"
  by (simp add: execute_action_def split: prod.splits sum.splits)

lemma execute_action_snd:
  "snd (snd (snd (execute_action env cid (action, path) (lf, rf, w)))) =
     (case fst (try_action env cid action path lf rf w) of
        Inr w' \<Rightarrow> w'
      | Inl exc \<Rightarrow>
          (case log_to env cid ''error'' path exc w of Inl exc' \<Rightarrow> w | Inr w' \<Rightarrow> w'))"
  by (simp add: execute_action_def split: prod.splits sum.splits)

lemma execute_action_raises:
  "fst (execute_action env cid a (lf, rf, w)) = action_raises env cid a"
proof (cases a)
  case (Pair action path)
  consider "action = ''upload''" | "action = ''download''" | "action = ''delete_local''"
    | "action = ''delete_remote''"
    | "action \<notin> {''upload'', ''download'', ''delete_local'', ''delete_remote''}"
    by blast
  then show ?thesis
  proof cases
    case 1
    show ?thesis
      unfolding Pair execute_action_fst try_action_fst 1
      by (simp add: action_raises_def log_to_cases error_row_def success_row_def
               split: sum.splits option.splits)
  next
    case 2
    show ?thesis
      unfolding Pair execute_action_fst try_action_fst 2
      by (simp add: action_raises_def log_to_cases error_row_def success_row_def
               split: sum.splits option.splits)
  next
    case 3
    show ?thesis
      unfolding Pair execute_action_fst try_action_fst 3
      by (simp add: action_raises_def log_to_cases error_row_def success_row_def
               split: sum.splits option.splits)
  next
    case 4
    show ?thesis
      unfolding Pair execute_action_fst try_action_fst 4
      by (simp add: action_raises_def log_to_cases error_row_def success_row_def
               split: sum.splits option.splits)
  next
    case 5
    then show ?thesis
      unfolding Pair execute_action_fst try_action_fst
      by (simp add: action_raises_def)
  qed
qed


lemma log_to_world:
  "log_to env cid kind path message w = Inr w' \<Longrightarrow>
     sync_state w' = sync_state w \<and> status_calls w' = status_calls w \<and>
     dirty_paths w' = dirty_paths w \<and> (\<exists>rows. logs w' = logs w @ rows)"
  by (auto simp: log_to_cases split: option.splits)

lemma execute_action_snd_cases:
  "snd (snd (snd (execute_action env cid (action, path) (lf, rf, w)))) = w \<or>
   (\<exists>kind message. log_to env cid kind path message w =
       Inr (snd (snd (snd (execute_action env cid (action, path) (lf, rf, w))))))"
proof (cases "fst (try_action env cid action path lf rf w)")
  case (Inl exc)
  then show ?thesis
    unfolding execute_action_snd by (cases "log_to env cid ''error'' path exc w") auto
next
  case (Inr w1)
  then have "w1 = w \<or> (\<exists>kind message. log_to env cid kind path message w = Inr w1)"
    unfolding try_action_fst by (auto split: if_splits sum.splits)
  with Inr show ?thesis unfolding execute_action_snd by simp
qed

lemma execute_action_world:
  assumes "execute_action env cid a (lf, rf, w) = (r, lf', rf', w')"
  shows "sync_state w' = sync_state w \<and> status_calls w' = status_calls w \<and>
         dirty_paths w' = dirty_paths w \<and> (\<exists>rows. logs w' = logs w @ rows)"
proof (cases a)
  case (Pair action path)
  have w': "w' = snd (snd (snd (execute_action env cid (action, path) (lf, rf, w))))"
    using assms Pair by simp
  from execute_action_snd_cases [of env cid action path lf rf w]
  have "w' = w \<or> (\<exists>kind message. log_to env cid kind path message w = Inr w')"
    unfolding w' .
  then show ?thesis
  proof
    assume "w' = w"
    then show ?thesis by simp
  next
    assume "\<exists>kind message. log_to env cid kind path message w = Inr w'"
    then obtain kind message where "log_to env cid kind path message w = Inr w'" by blast
    then show ?thesis by (rule log_to_world)
  qed
qed

lemma execute_all_world:
  "execute_all env cid acts (lf, rf, w) = (r, lf', rf', w') \<Longrightarrow>
     sync_state w' = sync_state w \<and> status_calls w' = status_calls w \<and>
     dirty_paths w' = dirty_paths w \<and> (\<exists>rows. logs w' = logs w @ rows)"
proof (induction acts arbitrary: lf rf w)
  case Nil
  then show ?case by simp
next
  case (Cons a acts)
  obtain r1 lf1 rf1 w1 where s: "execute_action env cid a (lf, rf, w) = (r1, lf1, rf1, w1)"
    by (cases "execute_action env cid a (lf, rf, w)") auto
  note step = execute_action_world [OF s]
  show ?case
  proof (cases r1)
    case None
    with Cons.prems s have "execute_all env cid acts (lf1, rf1, w1) = (r, lf', rf', w')"
      by simp
    from Cons.IH [OF this] step show ?thesis by auto
  next
    case (Some exc)
    with Cons.prems s have "w' = w1" by simp
    with step show ?thesis by simp
  qed
qed

lemma execute_all_none:
  "(\<forall>a \<in> set acts. action_raises env cid a = None) \<longleftrightarrow>
     fst (execute_all env cid acts (lf, rf, w)) = None"
proof (induction acts arbitrary: lf rf w)
  case Nil
  then show ?case by simp
next
  case (Cons a acts)
  obtain r1 lf1 rf1 w1 where s: "execute_action env cid a (lf, rf, w) = (r1, lf1, rf1, w1)"
    by (cases "execute_action env cid a (lf, rf, w)") auto
  have r1: "r1 = action_raises env cid a"
    using execute_action_raises [of env cid a lf rf w] s by simp
  show ?case
  proof (cases r1)
    case None
    then have ra: "action_raises env cid a = None" using r1 by simp
    have ea: "execute_all env cid (a # acts) (lf, rf, w) =
                execute_all env cid acts (lf1, rf1, w1)"
      using s None by simp
    show ?thesis unfolding ea using Cons.IH [of lf1 rf1 w1] ra by simp
  next
    case (Some exc)
    then have ra: "action_raises env cid a = Some exc" using r1 by simp
    have ea: "execute_all env cid (a # acts) (lf, rf, w) = (Some exc, lf1, rf1, w1)"
      using s Some by simp
    show ?thesis unfolding ea using ra by simp
  qed
qed

lemma execute_all_first:
  "(\<forall>a \<in> set pre. action_raises env cid a = None) \<Longrightarrow> action_raises env cid act = Some exc \<Longrightarrow>
     fst (execute_all env cid (pre @ act # post) (lf, rf, w)) = Some exc"
proof (induction pre arbitrary: lf rf w)
  case Nil
  obtain r1 lf1 rf1 w1 where s: "execute_action env cid act (lf, rf, w) = (r1, lf1, rf1, w1)"
    by (cases "execute_action env cid act (lf, rf, w)") auto
  with Nil execute_action_raises [of env cid act lf rf w] show ?case by simp
next
  case (Cons a pre)
  obtain r1 lf1 rf1 w1 where s: "execute_action env cid a (lf, rf, w) = (r1, lf1, rf1, w1)"
    by (cases "execute_action env cid a (lf, rf, w)") auto
  have "r1 = None"
    using execute_action_raises [of env cid a lf rf w] s Cons.prems(1) by simp
  with s Cons show ?case by simp
qed

lemma status_callback_cases:
  "status_callback env cid status err w =
     (case status_error env (cid, status, err) of
        Some exc \<Rightarrow> Inl exc
      | None \<Rightarrow> Inr (w\<lparr>status_calls := status_calls w @ [(cid, status, err)]\<rparr>))"
  by (simp add: status_callback_def)

lemma session_body_world:
  assumes "session_body env conn ignore ls prior dirty w = (res, w')"
  shows "sync_state w' = sync_state w \<and> dirty_paths w' = dirty_paths w \<and>
         (\<exists>calls rows. status_calls w' = status_calls w @ calls \<and>
            set calls \<subseteq> {(conn_id conn, ''Syncing'', None)} \<and> logs w' = logs w @ rows)"
proof (cases "remote_listing env")
  case (Inl exc)
  with assms have "w' = w" by (simp add: session_body_def)
  then show ?thesis by simp
next
  case (Inr files)
  let ?actions = "plan_actions (iter_order env) conn ls (filter_remote ignore files) prior dirty"
  let ?st = "if ?actions \<noteq> [] then status_callback env (conn_id conn) ''Syncing'' None w
             else Inr w"
  show ?thesis
  proof (cases ?st)
    case (Inl exc)
    with assms Inr have "w' = w" by (simp add: session_body_def Let_def)
    then show ?thesis by simp
  next
    case st: (Inr w1)
    then have w1: "sync_state w1 = sync_state w \<and> dirty_paths w1 = dirty_paths w \<and>
        logs w1 = logs w \<and>
        (\<exists>calls. status_calls w1 = status_calls w @ calls \<and>
           set calls \<subseteq> {(conn_id conn, ''Syncing'', None)})"
      by (auto simp: status_callback_cases split: if_splits option.splits)
    obtain r lf rf w2 where e: "execute_all env (conn_id conn) ?actions
          (ls, filter_remote ignore files, w1) = (r, lf, rf, w2)"
      by (cases "execute_all env (conn_id conn) ?actions (ls, filter_remote ignore files, w1)")
         auto
    have "w' = w2"
      using assms Inr st e by (cases r) (simp_all add: session_body_def Let_def)
    with execute_all_world [OF e] w1 show ?thesis by auto
  qed
qed

lemma sftp_block_world:
  assumes "sftp_block env conn ignore ls prior dirty w = (res, w')"
  shows "sync_state w' = sync_state w \<and> dirty_paths w' = dirty_paths w \<and>
         (\<exists>calls rows. status_calls w' = status_calls w @ calls \<and>
            set calls \<subseteq> {(conn_id conn, ''Syncing'', None)} \<and> logs w' = logs w @ rows)"
proof (cases "connect_error env")
  case (Some exc)
  with assms have "w' = w" by (simp add: sftp_block_def)
  then show ?thesis by simp
next
  case None
  obtain res1 w1 where b: "session_body env conn ignore ls prior dirty w = (res1, w1)"
    by (cases "session_body env conn ignore ls prior dirty w") auto
  have "w' = w1"
    using assms None b by (cases "close_error env") (simp_all add: sftp_block_def)
  with session_body_world [OF b] show ?thesis by simp
qed

lemma sftp_block_connect_error:
  "connect_error env = Some exc \<Longrightarrow>
     sftp_block env conn ignore ls prior dirty w = (Inl exc, w)"
  by (simp add: sftp_block_def)

lemma sftp_block_listing_error:
  "connect_error env = None \<Longrightarrow> close_error env = None \<Longrightarrow> remote_listing env = Inl exc \<Longrightarrow>
     sftp_block env conn ignore ls prior dirty w = (Inl exc, w)"
  by (simp add: sftp_block_def session_body_def)

lemma sftp_block_close_error:
  assumes "connect_error env = None" and "close_error env = Some exc"
  shows "fst (sftp_block env conn ignore ls prior dirty w) = Inl exc \<and>
         (remote_listing env = Inl exc \<longrightarrow>
            snd (sftp_block env conn ignore ls prior dirty w) = w)"
proof -
  obtain res1 w1 where b: "session_body env conn ignore ls prior dirty w = (res1, w1)"
    by (cases "session_body env conn ignore ls prior dirty w") auto
  have "remote_listing env = Inl exc \<Longrightarrow> w1 = w"
    using b by (simp add: session_body_def)
  with b assms show ?thesis by (simp add: sftp_block_def)
qed

lemma sftp_block_action_error:
  assumes "connect_error env = None" and "close_error env = None"
    and "remote_listing env = Inr files"
    and "plan_actions (iter_order env) conn ls (filter_remote ignore files) prior dirty =
           pre @ act # post"
    and "\<forall>a \<in> set pre. action_raises env (conn_id conn) a = None"
    and "action_raises env (conn_id conn) act = Some exc"
    and "status_error env (conn_id conn, ''Syncing'', None) = None"
  shows "fst (sftp_block env conn ignore ls prior dirty w) = Inl exc"
proof -
  let ?w1 = "w\<lparr>status_calls := status_calls w @ [(conn_id conn, ''Syncing'', None)]\<rparr>"
  obtain r lf rf w2 where e: "execute_all env (conn_id conn) (pre @ act # post)
          (ls, filter_remote ignore files, ?w1) = (r, lf, rf, w2)"
    by (cases "execute_all env (conn_id conn) (pre @ act # post)
          (ls, filter_remote ignore files, ?w1)") auto
  have "r = Some exc"
    using execute_all_first [OF assms(5,6), of post ls "filter_remote ignore files" ?w1] e
    by simp
  with e show ?thesis
    using assms(1,2,3,4,7)
    by (simp add: sftp_block_def session_body_def Let_def status_callback_cases)
qed

lemma sftp_block_returns:
  assumes "sftp_block env conn ignore ls prior dirty w = (Inr (lf, rf), w')"
  shows "connect_error env = None \<and> close_error env = None \<and>
         (\<exists>files. remote_listing env = Inr files \<and>
            (\<forall>a \<in> set (plan_actions (iter_order env) conn ls (filter_remote ignore files)
                             prior dirty).
               action_raises env (conn_id conn) a = None))"
proof -
  from assms have c: "connect_error env = None"
    by (cases "connect_error env") (simp_all add: sftp_block_def)
  obtain res1 w1 where b: "session_body env conn ignore ls prior dirty w = (res1, w1)"
    by (cases "session_body env conn ignore ls prior dirty w") auto
  from assms c b have cl: "close_error env = None" and r: "res1 = Inr (lf, rf)"
    by (cases "close_error env"; simp add: sftp_block_def)+
  from b r obtain files where f: "remote_listing env = Inr files"
    by (cases "remote_listing env") (simp_all add: session_body_def)
  let ?actions = "plan_actions (iter_order env) conn ls (filter_remote ignore files) prior dirty"
  let ?st = "if ?actions \<noteq> [] then status_callback env (conn_id conn) ''Syncing'' None w
             else Inr w"
  from b r f obtain w0 where st: "?st = Inr w0"
    by (cases ?st) (simp_all add: session_body_def Let_def)
  obtain r2 lf2 rf2 w2 where e: "execute_all env (conn_id conn) ?actions
          (ls, filter_remote ignore files, w0) = (r2, lf2, rf2, w2)"
    by (cases "execute_all env (conn_id conn) ?actions (ls, filter_remote ignore files, w0)")
       auto
  have "r2 = None"
    using b r f st e by (cases r2) (simp_all add: session_body_def Let_def)
  with e have "fst (execute_all env (conn_id conn) ?actions
          (ls, filter_remote ignore files, w0)) = None" by simp
  then have "\<forall>a \<in> set ?actions. action_raises env (conn_id conn) a = None"
    using execute_all_none [of ?actions env "conn_id conn" ls "filter_remote ignore files" w0]
    by simp
  with c cl f show ?thesis by simp
qed

lemma cycle_handler_state:
  "sync_state (snd (cycle_handler env cid exc w)) = sync_state w"
  by (simp add: cycle_handler_def status_callback_cases log_to_cases
           split: option.splits)

lemma cycle_handler_ok:
  "status_error env (cid, ''Error'', Some exc) = None \<Longrightarrow>
   log_error env (error_row cid [] exc) = None \<Longrightarrow>
   cycle_handler env cid exc w =
     (None, w\<lparr>status_calls := status_calls w @ [(cid, ''Error'', Some exc)],
              logs := logs w @ [error_row cid [] exc]\<rparr>)"
  by (simp add: cycle_handler_def status_callback_cases log_to_cases error_row_def)

lemma sync_cycle_reached:
  assumes "\<not> cycle_stop env" and "ignore_rules env = Inr ignore"
    and "status_error env (conn_id conn, ''Syncing'', None) = None"
    and "scan_local ignore (local_tree env) = Inr ls" and "load_error env = None"
  shows "sync_cycle env conn w =
     (case sftp_block env conn ignore ls (load_sync_state (conn_id conn) (sync_state w))
             (dirty_paths w)
             (w\<lparr>status_calls := status_calls w @ [(conn_id conn, ''Syncing'', None)],
                dirty_paths := {}\<rparr>) of
        (Inl exc, w3) \<Rightarrow> cycle_handler env (conn_id conn) exc w3
      | (Inr (lf, rf), w3) \<Rightarrow> cycle_finish env (conn_id conn) lf rf w3)"
  using assms by (simp add: sync_cycle_def status_callback_cases Let_def)

lemma sync_cycle_changed:
  assumes "sync_state (snd (sync_cycle env conn w)) \<noteq> sync_state w"
  shows "\<exists>ignore ls lf rf w3.
           ignore_rules env = Inr ignore \<and> scan_local ignore (local_tree env) = Inr ls \<and>
           sftp_block env conn ignore ls (load_sync_state (conn_id conn) (sync_state w))
             (dirty_paths w)
             (w\<lparr>status_calls := status_calls w @ [(conn_id conn, ''Syncing'', None)],
                dirty_paths := {}\<rparr>) = (Inr (lf, rf), w3)"
proof -
  have stop: "\<not> cycle_stop env"
    using assms by (auto simp: sync_cycle_def)
  obtain ignore where ig: "ignore_rules env = Inr ignore"
    using assms stop by (cases "ignore_rules env") (auto simp: sync_cycle_def)
  have st: "status_error env (conn_id conn, ''Syncing'', None) = None"
    using assms stop ig
    by (cases "status_error env (conn_id conn, ''Syncing'', None)")
       (auto simp: sync_cycle_def status_callback_cases)
  obtain ls where sc: "scan_local ignore (local_tree env) = Inr ls"
    using assms stop ig st
    by (cases "scan_local ignore (local_tree env)")
       (auto simp: sync_cycle_def status_callback_cases)
  have ld: "load_error env = None"
    using assms stop ig st sc
    by (cases "load_error env") (auto simp: sync_cycle_def status_callback_cases)
  let ?b = "sftp_block env conn ignore ls (load_sync_state (conn_id conn) (sync_state w))
             (dirty_paths w)
             (w\<lparr>status_calls := status_calls w @ [(conn_id conn, ''Syncing'', None)],
                dirty_paths := {}\<rparr>)"
  obtain res w3 where b: "?b = (res, w3)" by (cases ?b) auto
  have w3: "sync_state w3 = sync_state w"
    using sftp_block_world [OF b] by simp
  show ?thesis
  proof (cases res)
    case (Inl exc)
    have "sync_cycle env conn w = cycle_handler env (conn_id conn) exc w3"
      using sync_cycle_reached [OF stop ig st sc ld, of w] b Inl by simp
    then have "sync_state (snd (sync_cycle env conn w)) = sync_state w"
      using cycle_handler_state [of env "conn_id conn" exc w3] w3 by simp
    with assms show ?thesis by simp
  next
    case (Inr pair)
    then show ?thesis using ig sc b by (cases pair) auto
  qed
qed

lemma sync_cycle_error:
  assumes "\<not> cycle_stop env" and "ignore_rules env = Inr ignore"
    and "status_error env (conn_id conn, ''Syncing'', None) = None"
    and "scan_local ignore (local_tree env) = Inr ls" and "load_error env = None"
    and "sftp_block env conn ignore ls (load_sync_state (conn_id conn) (sync_state w))
             (dirty_paths w)
             (w\<lparr>status_calls := status_calls w @ [(conn_id conn, ''Syncing'', None)],
                dirty_paths := {}\<rparr>) = (Inl exc, w3)"
  shows "sync_state (snd (sync_cycle env conn w)) = sync_state w"
    and "status_error env (conn_id conn, ''Error'', Some exc) = None \<Longrightarrow>
         log_error env (error_row (conn_id conn) [] exc) = None \<Longrightarrow>
           fst (sync_cycle env conn w) = None \<and>
           status_calls (snd (sync_cycle env conn w)) =
             status_calls w3 @ [(conn_id conn, ''Error'', Some exc)] \<and>
           logs (snd (sync_cycle env conn w)) =
             logs w3 @ [error_row (conn_id conn) [] exc]"
proof -
  have c: "sync_cycle env conn w = cycle_handler env (conn_id conn) exc w3"
    using sync_cycle_reached [OF assms(1-5), of w] assms(6) by simp
  have "sync_state w3 = sync_state w"
    using sftp_block_world [OF assms(6)] by simp
  then show "sync_state (snd (sync_cycle env conn w)) = sync_state w"
    unfolding c using cycle_handler_state [of env "conn_id conn" exc w3] by simp
  show "status_error env (conn_id conn, ''Error'', Some exc) = None \<Longrightarrow>
         log_error env (error_row (conn_id conn) [] exc) = None \<Longrightarrow>
           fst (sync_cycle env conn w) = None \<and>
           status_calls (snd (sync_cycle env conn w)) =
             status_calls w3 @ [(conn_id conn, ''Error'', Some exc)] \<and>
           logs (snd (sync_cycle env conn w)) =
             logs w3 @ [error_row (conn_id conn) [] exc]"
    unfolding c by (simp add: cycle_handler_ok)
qed

text \<open>
  Claim C4, amended. Take a cycle that reaches the \<open>with\<close> block, and let an
  exception \<open>exc\<close> escape from opening the session, from the remote listing, from
  the execution of an action of the plan (the first action from which one escapes), or
  from closing the session, whose exception replaces any other.
  Then \<open>save_sync_state\<close> is not called: the \<open>sync_state\<close> table is the one the
  cycle started with. When in addition the status callback and \<open>add_log\<close> of the
  \<open>except\<close> clause do not raise, the cycle returns, its last status call is
  \<open>Error\<close> with the text of \<open>exc\<close>, and it appends one error row with an empty
  path and that text, directly after the rows of the actions executed before (none when
  the session or the listing failed). Conversely the table is changed only by a cycle
  that opened and closed its session and listed the remote tree without an exception
  and none of whose actions let an exception escape.
\<close>

theorem session_error_keeps_state:
  "(\<not> cycle_stop env \<and> ignore_rules env = Inr ignore \<and>
    status_error env (conn_id conn, ''Syncing'', None) = None \<and>
    scan_local ignore (local_tree env) = Inr local_snapshot \<and> load_error env = None \<and>
    (connect_error env = Some exc \<or>
     connect_error env = None \<and> close_error env = None \<and> remote_listing env = Inl exc \<or>
     connect_error env = None \<and> close_error env = None \<and>
       (\<exists>files pre act post.
          remote_listing env = Inr files \<and>
          plan_actions (iter_order env) conn local_snapshot (filter_remote ignore files)
            (load_sync_state (conn_id conn) (sync_state w)) (dirty_paths w) =
            pre @ act # post \<and>
          (\<forall>a \<in> set pre. action_raises env (conn_id conn) a = None) \<and>
          action_raises env (conn_id conn) act = Some exc) \<or>
     connect_error env = None \<and> close_error env = Some exc) \<longrightarrow>
      sync_state (snd (sync_cycle env conn w)) = sync_state w \<and>
      (status_error env (conn_id conn, ''Error'', Some exc) = None \<and>
       log_error env (error_row (conn_id conn) [] exc) = None \<longrightarrow>
         fst (sync_cycle env conn w) = None \<and>
         (\<exists>calls. status_calls (snd (sync_cycle env conn w)) =
                    status_calls w @ calls @ [(conn_id conn, ''Error'', Some exc)] \<and>
                  set calls \<subseteq> {(conn_id conn, ''Syncing'', None)}) \<and>
         (\<exists>rows. logs (snd (sync_cycle env conn w)) =
                    logs w @ rows @ [error_row (conn_id conn) [] exc] \<and>
                  (connect_error env = Some exc \<or> remote_listing env = Inl exc \<longrightarrow>
                     rows = [])))) \<and>
   (sync_state (snd (sync_cycle env conn w)) \<noteq> sync_state w \<longrightarrow>
      connect_error env = None \<and> close_error env = None \<and>
      (\<exists>ignore ls files.
         ignore_rules env = Inr ignore \<and> scan_local ignore (local_tree env) = Inr ls \<and>
         remote_listing env = Inr files \<and>
         (\<forall>a \<in> set (plan_actions (iter_order env) conn ls (filter_remote ignore files)
                          (load_sync_state (conn_id conn) (sync_state w)) (dirty_paths w)).
            action_raises env (conn_id conn) a = None)))"
proof (intro conjI impI)
  let ?cid = "conn_id conn"
  let ?prior = "load_sync_state ?cid (sync_state w)"
  let ?w2 = "w\<lparr>status_calls := status_calls w @ [(?cid, ''Syncing'', None)],
                dirty_paths := {}\<rparr>"
  assume h: "\<not> cycle_stop env \<and> ignore_rules env = Inr ignore \<and>
    status_error env (conn_id conn, ''Syncing'', None) = None \<and>
    scan_local ignore (local_tree env) = Inr local_snapshot \<and> load_error env = None \<and>
    (connect_error env = Some exc \<or>
     connect_error env = None \<and> close_error env = None \<and> remote_listing env = Inl exc \<or>
     connect_error env = None \<and> close_error env = None \<and>
       (\<exists>files pre act post.
          remote_listing env = Inr files \<and>
          plan_actions (iter_order env) conn local_snapshot (filter_remote ignore files)
            (load_sync_state (conn_id conn) (sync_state w)) (dirty_paths w) =
            pre @ act # post \<and>
          (\<forall>a \<in> set pre. action_raises env (conn_id conn) a = None) \<and>
          action_raises env (conn_id conn) act = Some exc) \<or>
     connect_error env = None \<and> close_error env = Some exc)"
  then have reach: "\<not> cycle_stop env" "ignore_rules env = Inr ignore"
      "status_error env (?cid, ''Syncing'', None) = None"
      "scan_local ignore (local_tree env) = Inr local_snapshot" "load_error env = None"
    by simp_all
  obtain res w3 where b: "sftp_block env conn ignore local_snapshot ?prior (dirty_paths w) ?w2 =
      (res, w3)"
    by (cases "sftp_block env conn ignore local_snapshot ?prior (dirty_paths w) ?w2") auto
  have src: "connect_error env = Some exc \<or>
     connect_error env = None \<and> close_error env = None \<and> remote_listing env = Inl exc \<or>
     connect_error env = None \<and> close_error env = None \<and>
       (\<exists>files pre act post.
          remote_listing env = Inr files \<and>
          plan_actions (iter_order env) conn local_snapshot (filter_remote ignore files)
            (load_sync_state (conn_id conn) (sync_state w)) (dirty_paths w) =
            pre @ act # post \<and>
          (\<forall>a \<in> set pre. action_raises env (conn_id conn) a = None) \<and>
          action_raises env (conn_id conn) act = Some exc) \<or>
     connect_error env = None \<and> close_error env = Some exc"
    using h by (elim conjE) assumption
  have r: "res = Inl exc \<and>
      (connect_error env = Some exc \<or> remote_listing env = Inl exc \<longrightarrow> w3 = ?w2)"
    using src
  proof (elim disjE conjE exE)
    assume "connect_error env = Some exc"
    then show ?thesis using b by (simp add: sftp_block_connect_error)
  next
    assume "connect_error env = None" "close_error env = None" "remote_listing env = Inl exc"
    then show ?thesis using b by (simp add: sftp_block_listing_error)
  next
    fix files pre act post
    assume c: "connect_error env = None" "close_error env = None"
      and f: "remote_listing env = Inr files"
      and p: "plan_actions (iter_order env) conn local_snapshot (filter_remote ignore files)
            (load_sync_state (conn_id conn) (sync_state w)) (dirty_paths w) = pre @ act # post"
      and n: "\<forall>a \<in> set pre. action_raises env (conn_id conn) a = None"
      and e: "action_raises env (conn_id conn) act = Some exc"
    have "fst (sftp_block env conn ignore local_snapshot ?prior (dirty_paths w) ?w2) = Inl exc"
      using c f p n e reach(3) by (rule sftp_block_action_error)
    with b c(1) f show ?thesis by simp
  next
    assume d: "connect_error env = None" "close_error env = Some exc"
    from sftp_block_close_error [OF d, of conn ignore local_snapshot ?prior "dirty_paths w" ?w2]
    show ?thesis using b d(1) by auto
  qed
  have b2: "sftp_block env conn ignore local_snapshot ?prior (dirty_paths w) ?w2 =
      (Inl exc, w3)"
    using b r by simp
  show "sync_state (snd (sync_cycle env conn w)) = sync_state w"
    using reach b2 by (rule sync_cycle_error(1))
  assume hd: "status_error env (conn_id conn, ''Error'', Some exc) = None \<and>
       log_error env (error_row (conn_id conn) [] exc) = None"
  then have ok: "fst (sync_cycle env conn w) = None \<and>
           status_calls (snd (sync_cycle env conn w)) =
             status_calls w3 @ [(?cid, ''Error'', Some exc)] \<and>
           logs (snd (sync_cycle env conn w)) = logs w3 @ [error_row ?cid [] exc]"
    using sync_cycle_error(2) [OF reach b2] by simp
  from sftp_block_world [OF b2] obtain calls rows where
    cr: "status_calls w3 = status_calls ?w2 @ calls"
        "set calls \<subseteq> {(?cid, ''Syncing'', None)}" "logs w3 = logs ?w2 @ rows"
    by blast
  show "fst (sync_cycle env conn w) = None" using ok by simp
  show "\<exists>calls. status_calls (snd (sync_cycle env conn w)) =
                    status_calls w @ calls @ [(conn_id conn, ''Error'', Some exc)] \<and>
                  set calls \<subseteq> {(conn_id conn, ''Syncing'', None)}"
  proof (intro exI conjI)
    show "status_calls (snd (sync_cycle env conn w)) =
            status_calls w @ ((?cid, ''Syncing'', None) # calls) @ [(?cid, ''Error'', Some exc)]"
      using ok cr(1) by simp
    show "set ((?cid, ''Syncing'', None) # calls) \<subseteq> {(?cid, ''Syncing'', None)}"
      using cr(2) by simp
  qed
  show "\<exists>rows. logs (snd (sync_cycle env conn w)) =
                    logs w @ rows @ [error_row (conn_id conn) [] exc] \<and>
                  (connect_error env = Some exc \<or> remote_listing env = Inl exc \<longrightarrow>
                     rows = [])"
  proof (intro exI conjI)
    show "logs (snd (sync_cycle env conn w)) = logs w @ rows @ [error_row ?cid [] exc]"
      using ok cr(3) by simp
    show "connect_error env = Some exc \<or> remote_listing env = Inl exc \<longrightarrow> rows = []"
      using r cr(3) by auto
  qed
next
  assume n: "sync_state (snd (sync_cycle env conn w)) \<noteq> sync_state w"
  from sync_cycle_changed [OF n] obtain ignore ls lf rf w3 where
    ig: "ignore_rules env = Inr ignore" and sc: "scan_local ignore (local_tree env) = Inr ls"
    and b: "sftp_block env conn ignore ls (load_sync_state (conn_id conn) (sync_state w))
             (dirty_paths w)
             (w\<lparr>status_calls := status_calls w @ [(conn_id conn, ''Syncing'', None)],
                dirty_paths := {}\<rparr>) = (Inr (lf, rf), w3)"
    by blast
  note ret = sftp_block_returns [OF b]
  show "connect_error env = None" using ret by simp
  show "close_error env = None" using ret by simp
  show "\<exists>ignore ls files.
         ignore_rules env = Inr ignore \<and> scan_local ignore (local_tree env) = Inr ls \<and>
         remote_listing env = Inr files \<and>
         (\<forall>a \<in> set (plan_actions (iter_order env) conn ls (filter_remote ignore files)
                          (load_sync_state (conn_id conn) (sync_state w)) (dirty_paths w)).
            action_raises env (conn_id conn) a = None)"
    using ig sc ret by blast
qed

text \<open>
  Claim C4 says that after an exception of the session the worker sets the status to
  \<open>Error\<close>, appends one error row and returns. The \<open>except\<close> clause itself calls
  the status callback and \<open>add_log\<close>, which write to the store. When opening the
  session fails and the database is locked for the error row, the exception of
  \<open>add_log\<close> leaves the cycle and no row is appended.
\<close>

theorem session_error_counterexample:
  "connect_error env_handler_fails = Some ''Authentication failed.'' \<and>
   sync_cycle env_handler_fails conn0 world0 =
     (Some ''database is locked'',
      world0\<lparr>status_calls := [(1, ''Syncing'', None),
                                (1, ''Error'', Some ''Authentication failed.'')]\<rparr>) \<and>
   logs (snd (sync_cycle env_handler_fails conn0 world0)) = logs world0"
  by code_simp

text \<open>Scenario S6 of the specification (opening the session fails), a cycle in which
  the database is locked while the upload of \<open>a.txt\<close> is logged, and a cycle that
  succeeds and replaces the rows.\<close>

theorem session_error_keeps_state_witness:
  "sync_cycle env_connect_fails conn0 world0 =
     (None, world0\<lparr>status_calls := [(1, ''Syncing'', None),
                                       (1, ''Error'', Some ''Authentication failed.'')],
                    logs := [error_row 1 [] ''Authentication failed.'']\<rparr>) \<and>
   sync_state (snd (sync_cycle env_connect_fails conn0 world0)) = sync_state world0 \<and>
   action_raises env_action_raises 1 (''upload'', ''a.txt'') = Some ''database is locked'' \<and>
   fst (sync_cycle env_action_raises conn0 world0) = None \<and>
   sync_state (snd (sync_cycle env_action_raises conn0 world0)) = sync_state world0 \<and>
   (\<exists>rows. logs (snd (sync_cycle env_action_raises conn0 world0)) =
        logs world0 @ rows @ [error_row 1 [] ''database is locked'']) \<and>
   sync_state (snd (sync_cycle env_ok conn0 world0)) \<noteq> sync_state world0 \<and>
   connect_error env_ok = None \<and> close_error env_ok = None"
proof -
  let ?ls = "[(''a.txt'', \<lparr>mtime = 100, size_b = 10\<rparr>)]"
  have e0: "sync_cycle env_connect_fails conn0 world0 =
     (None, world0\<lparr>status_calls := [(1, ''Syncing'', None),
                                       (1, ''Error'', Some ''Authentication failed.'')],
                    logs := [error_row 1 [] ''Authentication failed.'']\<rparr>)"
    by code_simp
  have cid: "conn_id conn0 = 1" by (simp add: conn0_def)
  have a: "\<not> cycle_stop env_connect_fails \<and> ignore_rules env_connect_fails = Inr [] \<and>
      status_error env_connect_fails (conn_id conn0, ''Syncing'', None) = None \<and>
      scan_local [] (local_tree env_connect_fails) = Inr ?ls \<and>
      load_error env_connect_fails = None \<and>
      connect_error env_connect_fails = Some ''Authentication failed.''"
    by code_simp
  have ta: "sync_state (snd (sync_cycle env_connect_fails conn0 world0)) = sync_state world0"
    using a session_error_keeps_state [where env = env_connect_fails and ignore = "[]"
        and conn = conn0 and local_snapshot = ?ls and exc = "''Authentication failed.''"
        and w = world0]
    by blast
  have c1: "\<not> cycle_stop env_action_raises \<and> ignore_rules env_action_raises = Inr [] \<and>
      status_error env_action_raises (conn_id conn0, ''Syncing'', None) = None \<and>
      scan_local [] (local_tree env_action_raises) = Inr ?ls \<and>
      load_error env_action_raises = None \<and>
      connect_error env_action_raises = None \<and> close_error env_action_raises = None \<and>
      remote_listing env_action_raises = Inr []"
    by code_simp
  have c2: "plan_actions (iter_order env_action_raises) conn0 ?ls (filter_remote [] [])
        (load_sync_state (conn_id conn0) (sync_state world0)) (dirty_paths world0) =
        [] @ (''upload'', ''a.txt'') # []"
    by code_simp
  have c3: "action_raises env_action_raises 1 (''upload'', ''a.txt'') = Some ''database is locked''"
    by code_simp
  have c4: "status_error env_action_raises (conn_id conn0, ''Error'', Some ''database is locked'') = None \<and>
      log_error env_action_raises (error_row (conn_id conn0) [] ''database is locked'') = None"
    by code_simp
  have ex: "\<exists>files pre act post.
          remote_listing env_action_raises = Inr files \<and>
          plan_actions (iter_order env_action_raises) conn0 ?ls (filter_remote [] files)
            (load_sync_state (conn_id conn0) (sync_state world0)) (dirty_paths world0) =
            pre @ act # post \<and>
          (\<forall>a \<in> set pre. action_raises env_action_raises (conn_id conn0) a = None) \<and>
          action_raises env_action_raises (conn_id conn0) act = Some ''database is locked''"
    using c1 c2 c3 cid by (intro exI [of _ "[]"] exI [of _ "(''upload'', ''a.txt'')"]) simp
  have tc: "sync_state (snd (sync_cycle env_action_raises conn0 world0)) = sync_state world0 \<and>
      fst (sync_cycle env_action_raises conn0 world0) = None \<and>
      (\<exists>rows. logs (snd (sync_cycle env_action_raises conn0 world0)) =
        logs world0 @ rows @ [error_row (conn_id conn0) [] ''database is locked''])"
    using c1 c4 ex session_error_keeps_state [where env = env_action_raises and ignore = "[]"
        and conn = conn0 and local_snapshot = ?ls and exc = "''database is locked''"
        and w = world0]
    by blast
  have k: "sync_state (snd (sync_cycle env_ok conn0 world0)) \<noteq> sync_state world0"
    by code_simp
  have tk: "connect_error env_ok = None \<and> close_error env_ok = None"
    using k session_error_keeps_state [where env = env_ok and conn = conn0 and w = world0]
    by blast
  show ?thesis
    using e0 ta c3 tc k tk cid by simp
qed

text \<open>
  Claim C7 says that no exception of a cycle leaves the worker, and that an error of the
  local walk or of loading the prior state is handled like a connection error.
  \<open>_sync_cycle\<close> calls \<open>_scan_local\<close> and \<open>load_sync_state\<close> before its
  \<open>try\<close>, and the loop of \<open>run\<close> has a \<open>finally\<close> but no \<open>except\<close>.
  When \<open>stat\<close> of a local file raises \<open>PermissionError\<close> the exception leaves the
  cycle without an \<open>Error\<close> status or a log row, and the thread ends with status
  \<open>Stopped\<close> although the next cycle was due. A failure to open the session in the
  same place is handled, and the loop goes on until it is stopped.
\<close>

theorem scan_error_ends_worker:
  "sync_cycle env_scan_fails conn0 world0 =
     (Some ''[Errno 13] Permission denied'',
      world0\<lparr>status_calls := [(1, ''Syncing'', None)]\<rparr>) \<and>
   run conn0 [env_scan_fails, env_ok] world0 =
     Some (Some ''[Errno 13] Permission denied'',
           world0\<lparr>status_calls := [(1, ''Syncing'', None), (1, ''Stopped'', None)]\<rparr>) \<and>
   run conn0 [env_connect_fails, env_ok\<lparr>loop_stop := True\<rparr>] world0 =
     Some (None,
           world0\<lparr>status_calls := [(1, ''Syncing'', None),
                                      (1, ''Error'', Some ''Authentication failed.''),
                                      (1, ''Stopped'', None)],
                   logs := [\<lparr>log_connection_id = 1, log_type = ''error'', log_path = [],
                             log_message = ''Authentication failed.''\<rparr>]\<rparr>)"
  by code_simp

end
